theory Spec2Isabelle
  imports Complex_Main "HOL-Library.AList"
begin

section \<open>Loosely typed JSON values\<close>

text \<open>
  Tool arguments, tool results and component payloads are whatever \<^verbatim>\<open>JSON.parse\<close>
  returns. An object is a list of key/value pairs holding each key once, in insertion order.
  \<open>None\<close> of type \<open>json option\<close> stands for JavaScript's \<^verbatim>\<open>undefined\<close>.
\<close>

datatype json =
    JNull
  | JBool bool
  | JNum rat
  | JStr string
  | JArr "json list"
  | JObj "(string \<times> json) list"

text \<open>JavaScript truthiness of a value that may be \<^verbatim>\<open>undefined\<close>.\<close>

fun truthy :: "json option \<Rightarrow> bool" where
  "truthy None = False"
| "truthy (Some JNull) = False"
| "truthy (Some (JBool b)) = b"
| "truthy (Some (JNum n)) = (n \<noteq> 0)"
| "truthy (Some (JStr s)) = (s \<noteq> [])"
| "truthy (Some (JArr xs)) = True"
| "truthy (Some (JObj kvs)) = True"

text \<open>\<^verbatim>\<open>v && typeof v === "object"\<close>: objects and arrays, not \<^verbatim>\<open>null\<close>.\<close>

fun is_object :: "json option \<Rightarrow> bool" where
  "is_object (Some (JArr xs)) = True"
| "is_object (Some (JObj kvs)) = True"
| "is_object v = False"

text \<open>
  The property read \<^verbatim>\<open>v.key\<close> for the keys this program reads (\<^verbatim>\<open>message\<close>,
  \<^verbatim>\<open>component\<close>, \<^verbatim>\<open>componentId\<close>, \<^verbatim>\<open>removeComponentMessage\<close>): only an object
  has them.
\<close>

fun js_prop :: "json \<Rightarrow> string \<Rightarrow> json option" where
  "js_prop (JObj kvs) k = map_of kvs k"
| "js_prop v k = None"

text \<open>\<^verbatim>\<open>typeof v === "string"\<close>, giving the string.\<close>

fun as_string :: "json option \<Rightarrow> string option" where
  "as_string (Some (JStr s)) = Some s"
| "as_string v = None"

section \<open>Data model (packages/types/src/sdk/ai.ts)\<close>

subsection \<open>Chat messages and the chat document\<close>

datatype role = User | Assistant | System | Tool

text \<open>
  A part of a multi-part content: a bare string, or an object with its \<^verbatim>\<open>text\<close>
  property when that is a string.
\<close>

datatype content_part = PartString string | PartObject "string option"

datatype message_content =
    ContentString string
  | ContentParts "content_part list"
  | ContentNull

record function_call =
  fn_name :: string
  fn_arguments :: string

record message_tool_call =
  call_id :: string
  call_type :: string
  call_function :: "function_call option"

record message =
  msg_role :: role
  msg_content :: message_content
  tool_calls :: "message_tool_call list option"
  tool_call_id :: "string option"

record agent_chat =
  chat_id :: "string option"
  chat_rev :: "string option"
  agentId :: string
  title :: "string option"
  chat_messages :: "message list"

subsection \<open>Provider chunks (LLMStreamChunk)\<close>

datatype chunk_type =
  Content | Tool_call_start | Tool_call_result | Done | Error | Chat_saved

record tool_call =
  tc_id :: string
  tc_name :: string
  tc_arguments :: string

record tool_result =
  tr_id :: string
  tr_result :: string
  tr_error :: "string option"

record llm_chunk =
  chunk_type :: chunk_type
  chunk_content :: "string option"
  toolCall :: "tool_call option"
  toolResult :: "tool_result option"
  chunk_messages :: "message list option"
  tokensUsed :: "nat option"

subsection \<open>Protocol events (AgentStreamEvent)\<close>

type_synonym metadata = "(string \<times> json) list"

datatype output_item =
    TextItem (item_id: string) (item_role: string) (item_text: string)
      (item_metadata: "metadata option")
  | ComponentItem (item_id: string) (item_role: string) (item_component: json)
      (item_metadata: "metadata option")

datatype item_state =
  Pending | Streaming | Submitted | Completed | Hidden | ErrorState

record patch =
  patch_state :: "item_state option"
  patch_metadata :: "metadata option"
  replaceWith :: "output_item option"

datatype call_status = Success | Failure

text \<open>The result carried by a tool-call-completed event: the decoded object or the raw string.\<close>

datatype tool_value = Structured json | Raw string

datatype event_body =
    AgentResponseStarted string "metadata option"
  | AgentOutputTextDelta string string string
  | AgentOutputTextCompleted string string string
  | AgentOutputItemCreated string output_item
  | AgentOutputItemUpdated string string patch
  | AgentToolCallStarted string string string json
  | AgentToolCallCompleted string string call_status "tool_value option" "string option"
  | AgentRunCompleted string "nat option"
  | AgentRunError string string "bool option"
  | AgentRunSaved string string "string option" "metadata option"

record stream_event =
  eventId :: string
  runId :: string
  sequence :: nat
  timestamp :: string
  body :: event_body

section \<open>Run emitter (server/src/api/controllers/ai/agents.ts, agentChatStream)\<close>

text \<open>
  What the emitter calls and this repository does not define: \<^verbatim>\<open>randomUUID()\<close> (the
  n-th call of the run returns \<open>uuid n\<close>), the clock, \<^verbatim>\<open>JSON.parse\<close> (\<open>None\<close> when
  it throws), \<^verbatim>\<open>JSON.stringify(v, null, 2)\<close>, \<^verbatim>\<open>docIds.generateAgentChatID()\<close>, the
  title prompt \<^verbatim>\<open>model.prompt\<close> and the store's \<^verbatim>\<open>db.put\<close> (\<open>Inl m\<close> when they
  throw an error with message \<open>m\<close>; \<open>db.put\<close> returns the new revision, if any).
\<close>

record env =
  uuid :: "nat \<Rightarrow> string"
  now :: "nat \<Rightarrow> string"
  json_parse :: "string \<Rightarrow> json option"
  json_stringify :: "json \<Rightarrow> string"
  generateAgentChatID :: string
  title_prompt :: "message list \<Rightarrow> string + string"
  db_put :: "agent_chat \<Rightarrow> string + string option"

text \<open>
  The closure variables of one run, the number of \<^verbatim>\<open>randomUUID()\<close> calls made so far,
  and the events written to the response, oldest first.
\<close>

record emitter =
  run_id :: string
  response_id :: string
  next_sequence :: nat
  activeTextItemId :: "string option"
  accumulatedText :: string
  uuids :: nat
  written :: "stream_event list"

definition emitEventInternal :: "env \<Rightarrow> event_body \<Rightarrow> emitter \<Rightarrow> emitter" where
  "emitEventInternal E b st =
     st\<lparr> written := written st @
            [\<lparr> eventId = uuid E (uuids st), runId = run_id st,
               sequence = next_sequence st, timestamp = now E (next_sequence st),
               body = b \<rparr>],
         next_sequence := next_sequence st + 1,
         uuids := uuids st + 1 \<rparr>"

definition randomUUID :: "env \<Rightarrow> emitter \<Rightarrow> string \<times> emitter" where
  "randomUUID E st = (uuid E (uuids st), st\<lparr> uuids := uuids st + 1 \<rparr>)"

definition ensureTextItem :: "env \<Rightarrow> emitter \<Rightarrow> string \<times> emitter" where
  "ensureTextItem E st =
     (case activeTextItemId st of
        Some i \<Rightarrow>
          if i \<noteq> [] then (i, st)
          else (let (n, st1) = randomUUID E st;
                    st2 = st1\<lparr> activeTextItemId := Some n \<rparr>
                in (n, emitEventInternal E
                     (AgentOutputItemCreated (response_id st2)
                        (TextItem n ''assistant'' [] None)) st2))
      | None \<Rightarrow>
          (let (n, st1) = randomUUID E st;
               st2 = st1\<lparr> activeTextItemId := Some n \<rparr>
           in (n, emitEventInternal E
                (AgentOutputItemCreated (response_id st2)
                   (TextItem n ''assistant'' [] None)) st2)))"

text \<open>The branch of a \<^verbatim>\<open>content\<close> chunk with non-empty content.\<close>

definition on_content :: "env \<Rightarrow> string \<Rightarrow> emitter \<Rightarrow> emitter" where
  "on_content E c st =
     (let (itemId, st1) = ensureTextItem E st;
          st2 = st1\<lparr> accumulatedText := accumulatedText st1 @ c \<rparr>
      in emitEventInternal E (AgentOutputTextDelta (response_id st2) itemId c) st2)"

text \<open>The branch of a \<^verbatim>\<open>tool_call_start\<close> chunk.\<close>

definition on_tool_call_start :: "env \<Rightarrow> tool_call \<Rightarrow> emitter \<Rightarrow> emitter" where
  "on_tool_call_start E tc st =
     (let parsedArgs =
            (case json_parse E (if tc_arguments tc \<noteq> [] then tc_arguments tc else ''{}'') of
               Some v \<Rightarrow> v
             | None \<Rightarrow> JObj [(''raw'', JStr (tc_arguments tc))])
      in emitEventInternal E
           (AgentToolCallStarted (response_id st) (tc_id tc) (tc_name tc) parsedArgs) st)"

text \<open>
  \<open>parsedResult\<close> of a \<^verbatim>\<open>tool_call_result\<close> chunk: the parsed value when the result
  string is non-empty and parses to an object or array, the string itself otherwise.
\<close>

definition parse_result :: "env \<Rightarrow> string \<Rightarrow> tool_value" where
  "parse_result E r =
     (if r \<noteq> [] then
        (case json_parse E r of
           Some v \<Rightarrow> if is_object (Some v) then Structured v else Raw r
         | None \<Rightarrow> Raw r)
      else Raw r)"

definition str_truthy :: "string option \<Rightarrow> bool" where
  "str_truthy s = (case s of None \<Rightarrow> False | Some x \<Rightarrow> x \<noteq> [])"

text \<open>Directive 1: a non-empty string \<^verbatim>\<open>message\<close>.\<close>

definition message_directive :: "env \<Rightarrow> string \<Rightarrow> json \<Rightarrow> emitter \<Rightarrow> emitter" where
  "message_directive E callId obj st =
     (case as_string (js_prop obj ''message'') of
        Some m \<Rightarrow>
          if m \<noteq> [] then
            (let (itemId, st1) = randomUUID E st;
                 st2 = emitEventInternal E
                   (AgentOutputItemCreated (response_id st1)
                      (TextItem itemId ''assistant'' m
                         (Some [(''sourceToolCallId'', JStr callId)]))) st1
             in emitEventInternal E
                  (AgentOutputTextCompleted (response_id st2) itemId m) st2)
          else st
      | None \<Rightarrow> st)"

text \<open>
  Directive 2: an object \<^verbatim>\<open>component\<close>. Its \<^verbatim>\<open>componentId\<close> is declared
  \<^verbatim>\<open>componentId?: string\<close>; a value that is not a non-empty string is replaced by a
  fresh identifier.
\<close>

definition component_id_of :: "env \<Rightarrow> json \<Rightarrow> emitter \<Rightarrow> string \<times> emitter" where
  "component_id_of E payload st =
     (case as_string (js_prop payload ''componentId'') of
        Some c \<Rightarrow> if c \<noteq> [] then (c, st) else randomUUID E st
      | None \<Rightarrow> randomUUID E st)"

definition component_directive :: "env \<Rightarrow> string \<Rightarrow> json \<Rightarrow> emitter \<Rightarrow> emitter" where
  "component_directive E callId obj st =
     (case js_prop obj ''component'' of
        Some payload \<Rightarrow>
          if is_object (Some payload) then
            (let (componentId, st1) = component_id_of E payload st
             in emitEventInternal E
                  (AgentOutputItemCreated (response_id st1)
                     (ComponentItem componentId ''assistant'' payload
                        (Some [(''sourceToolCallId'', JStr callId)]))) st1)
          else st
      | None \<Rightarrow> st)"

text \<open>
  Directive 3: \<^verbatim>\<open>removeComponentMessage\<close> with a non-empty string \<^verbatim>\<open>componentId\<close>.
  The patch hides the item; with a non-empty string \<^verbatim>\<open>message\<close> it also replaces it.
\<close>

definition removal_patch ::
  "env \<Rightarrow> string \<Rightarrow> json \<Rightarrow> string \<Rightarrow> emitter \<Rightarrow> patch \<times> emitter" where
  "removal_patch E callId obj componentId st =
     (let p = \<lparr> patch_state = Some Hidden,
                patch_metadata = Some [(''reason'', JStr ''submitted''),
                                       (''sourceToolCallId'', JStr callId)],
                replaceWith = None \<rparr>;
          successMessage = as_string (js_prop obj ''message'')
      in if str_truthy successMessage then
           (let (u, st1) = randomUUID E st
            in (p\<lparr> replaceWith := Some
                    (TextItem (componentId @ ''-result-'' @ u) ''assistant''
                       (the successMessage)
                       (Some [(''sourceToolCallId'', JStr callId)])) \<rparr>, st1))
         else (p, st))"

definition remove_directive :: "env \<Rightarrow> string \<Rightarrow> json \<Rightarrow> emitter \<Rightarrow> emitter" where
  "remove_directive E callId obj st =
     (if truthy (js_prop obj ''removeComponentMessage'') then
        (case as_string (js_prop obj ''componentId'') of
           Some componentId \<Rightarrow>
             if componentId \<noteq> [] then
               (let (p, st1) = removal_patch E callId obj componentId st
                in emitEventInternal E
                     (AgentOutputItemUpdated (response_id st1) componentId p) st1)
             else st
         | None \<Rightarrow> st)
      else st)"

text \<open>The branch of a \<^verbatim>\<open>tool_call_result\<close> chunk.\<close>

definition on_tool_call_result :: "env \<Rightarrow> tool_result \<Rightarrow> emitter \<Rightarrow> emitter" where
  "on_tool_call_result E tr st =
     (let parsedResult = parse_result E (tr_result tr);
          failed = str_truthy (tr_error tr);
          st1 = emitEventInternal E
            (AgentToolCallCompleted (response_id st) (tr_id tr)
               (if failed then Failure else Success)
               (if failed then None else Some parsedResult)
               (if failed then tr_error tr else None)) st
      in if failed then st1
         else (case parsedResult of
                 Structured obj \<Rightarrow>
                   remove_directive E (tr_id tr) obj
                     (component_directive E (tr_id tr) obj
                        (message_directive E (tr_id tr) obj st1))
               | Raw s \<Rightarrow> st1))"

text \<open>\<^verbatim>\<open>chunk.content || "An error occurred"\<close>\<close>

definition error_message :: "llm_chunk \<Rightarrow> string" where
  "error_message c =
     (if str_truthy (chunk_content c) then the (chunk_content c) else ''An error occurred'')"

text \<open>The branch of an \<^verbatim>\<open>error\<close> chunk; the caller then ends the response and returns.\<close>

definition on_error :: "env \<Rightarrow> llm_chunk \<Rightarrow> emitter \<Rightarrow> emitter" where
  "on_error E c st =
     emitEventInternal E (AgentRunError (response_id st) (error_message c) (Some False)) st"

text \<open>The branch of a \<^verbatim>\<open>done\<close> chunk; the caller then leaves the loop.\<close>

definition on_done :: "env \<Rightarrow> llm_chunk \<Rightarrow> emitter \<Rightarrow> emitter" where
  "on_done E c st =
     (let totalTokens = (case tokensUsed c of Some n \<Rightarrow> n | None \<Rightarrow> 0);
          st1 = (if str_truthy (activeTextItemId st) then
                   emitEventInternal E
                     (AgentOutputTextCompleted (response_id st)
                        (the (activeTextItemId st)) (accumulatedText st)) st
                 else st)
      in emitEventInternal E (AgentRunCompleted (response_id st1) (Some totalTokens)) st1)"

text \<open>
  How the loop over the provider stream goes on after a chunk: to the next chunk, out of
  the function (error chunk), or out of the loop with the final messages and token count.
\<close>

datatype control = Next | Return | Break "message list" nat

definition handle_chunk :: "env \<Rightarrow> llm_chunk \<Rightarrow> emitter \<Rightarrow> emitter \<times> control" where
  "handle_chunk E c st =
     (if chunk_type c = Content \<and> str_truthy (chunk_content c) then
        (on_content E (the (chunk_content c)) st, Next)
      else if chunk_type c = Tool_call_start \<and> toolCall c \<noteq> None then
        (on_tool_call_start E (the (toolCall c)) st, Next)
      else if chunk_type c = Tool_call_result \<and> toolResult c \<noteq> None then
        (on_tool_call_result E (the (toolResult c)) st, Next)
      else if chunk_type c = Error then
        (on_error E c st, Return)
      else if chunk_type c = Done then
        (on_done E c st,
         Break (case chunk_messages c of Some ms \<Rightarrow> ms | None \<Rightarrow> [])
               (case tokensUsed c of Some n \<Rightarrow> n | None \<Rightarrow> 0))
      else (st, Next))"

text \<open>
  The provider stream is the list of what the iterator yields: a chunk, or (\<open>Inl m\<close>) an
  exception with message \<open>m\<close>. The loop ends at the first error chunk, done chunk or
  exception, or when the stream is exhausted, with \<open>finalMessages = []\<close> and
  \<open>totalTokens = 0\<close> as initialised.
\<close>

datatype loop_exit = Returned | Thrown string | Finished "message list" nat

fun consume :: "env \<Rightarrow> emitter \<Rightarrow> (string + llm_chunk) list \<Rightarrow> emitter \<times> loop_exit" where
  "consume E st [] = (st, Finished [] 0)"
| "consume E st (Inl m # rest) = (st, Thrown m)"
| "consume E st (Inr c # rest) =
     (case handle_chunk E c st of
        (st1, Next) \<Rightarrow> consume E st1 rest
      | (st1, Return) \<Rightarrow> (st1, Returned)
      | (st1, Break ms n) \<Rightarrow> (st1, Finished ms n))"

section \<open>Transcript persistence (agents.ts, addDebugInformation and the save block)\<close>

text \<open>
  \<^verbatim>\<open>String(parts)\<close> of a multi-part content, as \<^verbatim>\<open>content += text\<close> computes it: the
  parts joined by commas, an object part printing as \<^verbatim>\<open>[object Object]\<close>.
\<close>

fun part_to_string :: "content_part \<Rightarrow> string" where
  "part_to_string (PartString s) = s"
| "part_to_string (PartObject t) = ''[object Object]''"

fun join :: "string \<Rightarrow> string list \<Rightarrow> string" where
  "join sep [] = []"
| "join sep [x] = x"
| "join sep (x # y # ys) = x @ sep @ join sep (y # ys)"

text \<open>The lines one tool call adds; a call that is not a function call adds nothing.\<close>

definition tool_call_debug :: "env \<Rightarrow> message_tool_call \<Rightarrow> string" where
  "tool_call_debug E tc =
     (case call_function tc of
        None \<Rightarrow> []
      | Some f \<Rightarrow>
          if call_type tc \<noteq> ''function'' then []
          else (let toolParams =
                      (case json_parse E (fn_arguments f) of
                         Some v \<Rightarrow> json_stringify E v
                       | None \<Rightarrow> fn_arguments f)
                in ''\<newline>**Tool:** '' @ fn_name f @ ''\<newline>**Parameters:**\<newline>```json\<newline>''
                   @ toolParams @ ''\<newline>```\<newline>''))"

definition toolDebugInfo :: "env \<Rightarrow> message_tool_call list \<Rightarrow> string" where
  "toolDebugInfo E tcs =
     ''\<newline>\<newline>**Tool Calls:**\<newline>'' @ concat (map (tool_call_debug E) tcs)"

definition debug_message :: "env \<Rightarrow> message \<Rightarrow> message" where
  "debug_message E m =
     (case tool_calls m of
        None \<Rightarrow> m
      | Some tcs \<Rightarrow>
          if msg_role m = Assistant \<and> tcs \<noteq> [] then
            m\<lparr> msg_content :=
                 (case msg_content m of
                    ContentString s \<Rightarrow>
                      if s \<noteq> [] then ContentString (s @ toolDebugInfo E tcs)
                      else ContentString (toolDebugInfo E tcs)
                  | ContentParts ps \<Rightarrow>
                      ContentString (join '','' (map part_to_string ps) @ toolDebugInfo E tcs)
                  | ContentNull \<Rightarrow> ContentString (toolDebugInfo E tcs)) \<rparr>
          else m)"

definition addDebugInformation :: "env \<Rightarrow> message list \<Rightarrow> message list" where
  "addDebugInformation E messages = map (debug_message E) messages"

text \<open>
  What a run did: the events written, whether the response was ended, whether a chat id
  was minted, the message lists sent to the title prompt and the documents handed to
  \<^verbatim>\<open>db.put\<close>.
\<close>

record run_result =
  events :: "stream_event list"
  ended :: bool
  minted :: bool
  title_prompts :: "message list list"
  put_calls :: "agent_chat list"

text \<open>The \<^verbatim>\<open>catch\<close> block: one response-error with the exception's message.\<close>

definition caught ::
  "env \<Rightarrow> string \<Rightarrow> emitter \<Rightarrow> bool \<Rightarrow> message list list \<Rightarrow> agent_chat list \<Rightarrow> run_result" where
  "caught E m st mt tps pcs =
     \<lparr> events = written (emitEventInternal E (AgentRunError (response_id st) m (Some False)) st),
       ended = True, minted = mt, title_prompts = tps, put_calls = pcs \<rparr>"

text \<open>The chat's id, minted when the chat has none, and the document handed to the store.\<close>

definition chat_id_of :: "env \<Rightarrow> agent_chat \<Rightarrow> string" where
  "chat_id_of E chat =
     (if \<not> str_truthy (chat_id chat) then generateAgentChatID E else the (chat_id chat))"

definition new_chat :: "env \<Rightarrow> agent_chat \<Rightarrow> message list \<Rightarrow> string \<Rightarrow> agent_chat" where
  "new_chat E chat finalMessages t =
     \<lparr> chat_id = Some (chat_id_of E chat), chat_rev = chat_rev chat, agentId = agentId chat,
       title = Some t, chat_messages = addDebugInformation E finalMessages \<rparr>"

definition saved_event :: "env \<Rightarrow> agent_chat \<Rightarrow> nat \<Rightarrow> string option \<Rightarrow> emitter \<Rightarrow> event_body" where
  "saved_event E chat totalTokens revision st =
     AgentRunSaved (response_id st) (chat_id_of E chat)
       (if str_truthy revision then revision else None)
       (Some [(''tokensUsed'', JNum (of_nat totalTokens))])"

text \<open>The block after the loop: save the chat when there are final messages.\<close>

definition persist ::
  "env \<Rightarrow> agent_chat \<Rightarrow> message list \<Rightarrow> nat \<Rightarrow> emitter \<Rightarrow> run_result" where
  "persist E chat finalMessages totalTokens st =
     (if length finalMessages > 0 then
        (let mt = \<not> str_truthy (chat_id chat);
             untitled = \<not> str_truthy (title chat);
             tps = (if untitled then [finalMessages] else [])
         in case (if untitled then title_prompt E finalMessages else Inr (the (title chat))) of
              Inl m \<Rightarrow> caught E m st mt tps []
            | Inr t \<Rightarrow>
                (case db_put E (new_chat E chat finalMessages t) of
                   Inl m \<Rightarrow> caught E m st mt tps [new_chat E chat finalMessages t]
                 | Inr revision \<Rightarrow>
                     \<lparr> events = written
                         (emitEventInternal E (saved_event E chat totalTokens revision st) st),
                       ended = True, minted = mt, title_prompts = tps,
                       put_calls = [new_chat E chat finalMessages t] \<rparr>))
      else \<lparr> events = written st, ended = True, minted = False, title_prompts = [],
             put_calls = [] \<rparr>)"

text \<open>
  One run, from the creation of the run and response identifiers on. The lookups before it
  (model, agent) and the assembly of the prompt write no event and are left out.
\<close>

definition start :: "env \<Rightarrow> agent_chat \<Rightarrow> emitter" where
  "start E chat =
     emitEventInternal E
       (AgentResponseStarted (uuid E 1) (Some [(''agentId'', JStr (agentId chat))]))
       \<lparr> run_id = uuid E 0, response_id = uuid E 1, next_sequence = 0,
         activeTextItemId = None, accumulatedText = [], uuids = 2, written = [] \<rparr>"

definition agentChatStream ::
  "env \<Rightarrow> agent_chat \<Rightarrow> (string + llm_chunk) list \<Rightarrow> run_result" where
  "agentChatStream E chat stream =
     (case consume E (start E chat) stream of
        (st, Returned) \<Rightarrow>
          \<lparr> events = written st, ended = True, minted = False, title_prompts = [],
            put_calls = [] \<rparr>
      | (st, Thrown m) \<Rightarrow> caught E m st False [] []
      | (st, Finished ms n) \<Rightarrow> persist E chat ms n st)"

subsection \<open>Reading a run's events\<close>

datatype event_type =
    Response_started | Output_text_delta | Output_text_completed | Output_item_created
  | Output_item_updated | Tool_call_started | Tool_call_completed | Response_completed
  | Response_error | Response_saved

text \<open>The \<^verbatim>\<open>type\<close> field of an event.\<close>

fun etype :: "event_body \<Rightarrow> event_type" where
  "etype (AgentResponseStarted r m) = Response_started"
| "etype (AgentOutputTextDelta r i d) = Output_text_delta"
| "etype (AgentOutputTextCompleted r i t) = Output_text_completed"
| "etype (AgentOutputItemCreated r it) = Output_item_created"
| "etype (AgentOutputItemUpdated r i p) = Output_item_updated"
| "etype (AgentToolCallStarted r c n a) = Tool_call_started"
| "etype (AgentToolCallCompleted r c s v e) = Tool_call_completed"
| "etype (AgentRunCompleted r n) = Response_completed"
| "etype (AgentRunError r m b) = Response_error"
| "etype (AgentRunSaved r c v m) = Response_saved"

definition etypes :: "stream_event list \<Rightarrow> event_type list" where
  "etypes es = map (\<lambda>e. etype (body e)) es"

text \<open>The events written between two states of the emitter.\<close>

definition new_events :: "emitter \<Rightarrow> emitter \<Rightarrow> stream_event list" where
  "new_events st st' = drop (length (written st)) (written st')"

text \<open>
  \<open>steps st es st'\<close>: between \<open>st\<close> and \<open>st'\<close> exactly the events \<open>es\<close> were written,
  numbered from the counter of \<open>st\<close> on.
\<close>

definition steps :: "emitter \<Rightarrow> stream_event list \<Rightarrow> emitter \<Rightarrow> bool" where
  "steps st es st' \<longleftrightarrow>
     written st' = written st @ es \<and>
     next_sequence st' = next_sequence st + length es \<and>
     map sequence es = [next_sequence st ..< next_sequence st + length es] \<and>
     response_id st' = response_id st \<and> run_id st' = run_id st"

text \<open>The condition of directive 3 on a decoded result.\<close>

definition removal :: "json \<Rightarrow> bool" where
  "removal obj \<longleftrightarrow> truthy (js_prop obj ''removeComponentMessage'')
      \<and> str_truthy (as_string (js_prop obj ''componentId''))"

text \<open>An item of the provider stream after which the loop goes on.\<close>

fun goes_on :: "string + llm_chunk \<Rightarrow> bool" where
  "goes_on (Inl m) = False"
| "goes_on (Inr c) = (chunk_type c \<noteq> Error \<and> chunk_type c \<noteq> Done)"

text \<open>Event types that neither open nor close a run.\<close>

definition mid :: "event_type \<Rightarrow> bool" where
  "mid t \<longleftrightarrow> t \<noteq> Response_started \<and> t \<noteq> Response_completed \<and> t \<noteq> Response_error
     \<and> t \<noteq> Response_saved"

text \<open>What the event types written by the loop look like, by the way the loop ended.\<close>

fun exit_types :: "loop_exit \<Rightarrow> event_type list \<Rightarrow> bool" where
  "exit_types Returned ts = (\<exists>pre. ts = pre @ [Response_error] \<and> list_all mid pre)"
| "exit_types (Thrown m) ts = list_all mid ts"
| "exit_types (Finished ms n) ts =
     ((ms = [] \<and> list_all mid ts) \<or> (\<exists>pre. ts = pre @ [Response_completed] \<and> list_all mid pre))"

text \<open>The end of a run's events: nothing, one response-error, or one response-saved after a response-completed.\<close>

definition closing :: "stream_event list \<Rightarrow> stream_event list \<Rightarrow> bool" where
  "closing es cl \<longleftrightarrow>
     cl = [] \<or> (\<exists>e. cl = [e] \<and> etype (body e) = Response_error) \<or>
     (\<exists>e. cl = [e] \<and> etype (body e) = Response_saved \<and> Response_completed \<in> set (etypes es))"

text \<open>
  The order the specification states for the events of one chunk: item-created, then
  item-updated, then text-completed. \<open>spec_ordered\<close> holds of a list of event types when
  those three kinds occur in it in that order.
\<close>

fun spec_rank :: "event_type \<Rightarrow> nat option" where
  "spec_rank Output_item_created = Some 0"
| "spec_rank Output_item_updated = Some 1"
| "spec_rank Output_text_completed = Some 2"
| "spec_rank t = None"

definition spec_ordered :: "event_type list \<Rightarrow> bool" where
  "spec_ordered ts = sorted (List.map_filter spec_rank ts)"

section \<open>Segment reconciliation (frontend-core/src/components/Chatbox/index.svelte)\<close>

text \<open>
  Strings are lists of 8-bit characters, read as the code units below 256. On these,
  \<^verbatim>\<open>String.prototype.trim\<close> removes tab, line feed, vertical tab, form feed, carriage
  return, space and no-break space from both ends.
\<close>

definition is_space :: "char \<Rightarrow> bool" where
  "is_space c \<longleftrightarrow> c \<in> set [CHR 0x09, CHR 0x0A, CHR 0x0B, CHR 0x0C, CHR 0x0D, CHR 0x20, CHR 0xA0]"

definition trim :: "string \<Rightarrow> string" where
  "trim s = rev (dropWhile is_space (rev (dropWhile is_space s)))"

text \<open>A number as a template literal prints it: its decimal digits.\<close>

definition digit :: "nat \<Rightarrow> char" where
  "digit d = char_of (d + 48)"

fun decimal :: "nat \<Rightarrow> string" where
  "decimal n = (if n < 10 then [digit n] else decimal (n div 10) @ [digit (n mod 10)])"

declare decimal.simps [simp del]

datatype segment =
    AssistantTextSegment (seg_id: string) (seg_content: string)
  | AssistantComponentSegment (seg_id: string) (seg_component: json) (seg_hidden: "bool option")

record response_state =
  responseId :: string
  messageIndex :: nat
  segments :: "segment list"

text \<open>
  The component's variables. A \<^verbatim>\<open>Map\<close> is a list of key/value pairs in insertion order:
  \<open>map_of\<close> is \<^verbatim>\<open>get\<close>, \<open>AList.update\<close> is \<^verbatim>\<open>set\<close> (in place for a key already
  there, at the end otherwise) and \<open>AList.delete\<close> is \<^verbatim>\<open>delete\<close>. \<open>messages\<close> is the
  message list of \<^verbatim>\<open>chat\<close> and \<^verbatim>\<open>updatedChat\<close>, which the handlers keep equal;
  \<open>saved_id\<close> and \<open>saved_rev\<close> are the chat's \<^verbatim>\<open>_id\<close> and \<^verbatim>\<open>_rev\<close>; \<open>errors\<close> are
  the notifications shown and \<open>dispatched\<close> the \<^verbatim>\<open>chatSaved\<close> events sent. Scrolling
  and focus are left out.
\<close>

record engine =
  responseStates :: "(string \<times> response_state) list"
  itemToResponse :: "(string \<times> (string \<times> nat)) list"
  messageResponseMap :: "(nat \<times> string) list"
  toolCallComponentMap :: "(string \<times> string) list"
  componentLoading :: "string set"
  responseStatesVersion :: nat
  activeResponseId :: "string option"
  lastHydratedKey :: "string option"
  messages :: "message list"
  saved_id :: "string option"
  saved_rev :: "string option"
  loading :: bool
  errors :: "string list"
  dispatched :: "string list"

definition setComponentLoading :: "string \<Rightarrow> bool \<Rightarrow> engine \<Rightarrow> engine" where
  "setComponentLoading componentId isLoading st =
     (if componentId = [] then st
      else st\<lparr> componentLoading :=
                  (if isLoading then insert componentId (componentLoading st)
                   else componentLoading st - {componentId}) \<rparr>)"

definition clearComponentLoading :: "string \<Rightarrow> engine \<Rightarrow> engine" where
  "clearComponentLoading componentId st =
     (if componentId = [] then st else setComponentLoading componentId False st)"

definition reindexResponseSegments :: "string \<Rightarrow> engine \<Rightarrow> engine" where
  "reindexResponseSegments rid st =
     (case map_of (responseStates st) rid of
        None \<Rightarrow> st
      | Some state \<Rightarrow>
          st\<lparr> itemToResponse :=
                foldl (\<lambda>m (segment, index). AList.update (seg_id segment) (rid, index) m)
                  (itemToResponse st)
                  (zip (segments state) [0 ..< length (segments state)]) \<rparr>)"

text \<open>\<^verbatim>\<open>Array.prototype.findIndex\<close>, with \<open>None\<close> for -1.\<close>

fun findIndex :: "('a \<Rightarrow> bool) \<Rightarrow> 'a list \<Rightarrow> nat option" where
  "findIndex P [] = None"
| "findIndex P (x # xs) =
     (if P x then Some 0 else map_option Suc (findIndex P xs))"

text \<open>The loop of \<^verbatim>\<open>locateSegment\<close> over the response states, in insertion order.\<close>

fun locate_in :: "string \<Rightarrow> (string \<times> response_state) list \<Rightarrow> (string \<times> nat) option" where
  "locate_in itemId [] = None"
| "locate_in itemId ((k, state) # rest) =
     (case findIndex (\<lambda>segment. seg_id segment = itemId) (segments state) of
        Some segmentIndex \<Rightarrow> Some (responseId state, segmentIndex)
      | None \<Rightarrow> locate_in itemId rest)"

definition locateSegment :: "string \<Rightarrow> engine \<Rightarrow> (string \<times> nat) option \<times> engine" where
  "locateSegment itemId st =
     (case map_of (itemToResponse st) itemId of
        Some existing \<Rightarrow> (Some existing, st)
      | None \<Rightarrow>
          (case locate_in itemId (responseStates st) of
             Some mapping \<Rightarrow>
               (Some mapping,
                st\<lparr> itemToResponse := AList.update itemId mapping (itemToResponse st) \<rparr>)
           | None \<Rightarrow> (None, st)))"

definition pushAssistantMessage :: "string \<Rightarrow> engine \<Rightarrow> nat \<times> engine" where
  "pushAssistantMessage rid st =
     (let assistantMessage = \<lparr> msg_role = Assistant, msg_content = ContentString [],
                                 tool_calls = None, tool_call_id = None \<rparr>;
          msgs = messages st @ [assistantMessage];
          index = length msgs - 1
      in (index, st\<lparr> messageResponseMap := AList.update index rid (messageResponseMap st),
                     messages := msgs \<rparr>))"

text \<open>The text a segment contributes to the stored content of its message.\<close>

fun segment_part :: "segment \<Rightarrow> string list" where
  "segment_part (AssistantComponentSegment i c h) =
     (if h = Some True then [] else [''{{toolResult:component:'' @ i @ ''}}''])"
| "segment_part (AssistantTextSegment i c) =
     (if trim c \<noteq> [] then [trim c] else [])"

definition refreshAssistantMessageContent :: "string \<Rightarrow> engine \<Rightarrow> engine" where
  "refreshAssistantMessageContent rid st =
     (case map_of (responseStates st) rid of
        None \<Rightarrow> st
      | Some state \<Rightarrow>
          if messageIndex state < length (messages st) then
            (let existing = messages st ! messageIndex state;
                 parts = concat (map segment_part (segments state));
                 textContent = trim (join ''\<newline>\<newline>'' parts);
                 updatedMessage = existing\<lparr> msg_content := ContentString textContent \<rparr>
             in st\<lparr> messages := (messages st)[messageIndex state := updatedMessage],
                    messageResponseMap :=
                      AList.update (messageIndex state) rid (messageResponseMap st) \<rparr>)
          else st)"

definition getOrCreateResponseState :: "string \<Rightarrow> engine \<Rightarrow> response_state \<times> engine" where
  "getOrCreateResponseState rid st =
     (case map_of (responseStates st) rid of
        None \<Rightarrow>
          (let (index, st1) = pushAssistantMessage rid st;
               state = \<lparr> responseId = rid, messageIndex = index, segments = [] \<rparr>
           in (state, st1\<lparr> responseStates := AList.update rid state (responseStates st1),
                           responseStatesVersion := responseStatesVersion st1 + 1 \<rparr>))
      | Some state \<Rightarrow>
          (state, st\<lparr> messageResponseMap :=
                        AList.update (messageIndex state) rid (messageResponseMap st) \<rparr>))"

text \<open>
  Both callers of \<^verbatim>\<open>replaceSegment\<close> have read a segment at \<open>segmentIndex\<close>, so the
  index is in range.
\<close>

definition replaceSegment :: "string \<Rightarrow> nat \<Rightarrow> segment \<Rightarrow> engine \<Rightarrow> engine" where
  "replaceSegment rid segmentIndex segment st =
     (case map_of (responseStates st) rid of
        None \<Rightarrow> st
      | Some state \<Rightarrow>
          (let segs = (segments state)[segmentIndex := segment];
               st1 = st\<lparr> responseStates :=
                            AList.update rid (state\<lparr> segments := segs \<rparr>) (responseStates st) \<rparr>;
               st2 = reindexResponseSegments rid st1;
               st3 = st2\<lparr> responseStatesVersion := responseStatesVersion st2 + 1 \<rparr>
           in refreshAssistantMessageContent rid st3))"

definition appendSegment :: "string \<Rightarrow> segment \<Rightarrow> engine \<Rightarrow> engine" where
  "appendSegment rid segment st =
     (let (state, st0) = getOrCreateResponseState rid st;
          segs = segments state @ [segment];
          st1 = st0\<lparr> responseStates :=
                        AList.update rid (state\<lparr> segments := segs \<rparr>) (responseStates st0) \<rparr>;
          st2 = reindexResponseSegments rid st1;
          st3 = st2\<lparr> responseStatesVersion := responseStatesVersion st2 + 1 \<rparr>
      in refreshAssistantMessageContent rid st3)"

definition updateTextSegment :: "string \<Rightarrow> (string \<Rightarrow> string) \<Rightarrow> engine \<Rightarrow> engine" where
  "updateTextSegment itemId updater st =
     (case map_of (itemToResponse st) itemId of
        None \<Rightarrow> st
      | Some (rid, segmentIndex) \<Rightarrow>
          (case map_of (responseStates st) rid of
             None \<Rightarrow> st
           | Some state \<Rightarrow>
               if segmentIndex < length (segments state) then
                 (case segments state ! segmentIndex of
                    AssistantTextSegment i c \<Rightarrow>
                      replaceSegment rid segmentIndex (AssistantTextSegment i (updater c)) st
                  | AssistantComponentSegment i p h \<Rightarrow> st)
               else st))"

text \<open>\<^verbatim>\<open>event.responseId || activeResponseId\<close>, when that is a non-empty string.\<close>

definition target_response :: "string \<Rightarrow> engine \<Rightarrow> string option" where
  "target_response rid st =
     (if rid \<noteq> [] then Some rid
      else (case activeResponseId st of
              Some a \<Rightarrow> if a \<noteq> [] then Some a else None
            | None \<Rightarrow> None))"

text \<open>The segment an output item becomes.\<close>

fun segment_of_item :: "output_item \<Rightarrow> segment" where
  "segment_of_item (TextItem i r t m) = AssistantTextSegment i t"
| "segment_of_item (ComponentItem i r c m) = AssistantComponentSegment i c None"

fun is_component :: "segment \<Rightarrow> bool" where
  "is_component (AssistantComponentSegment i c h) = True"
| "is_component (AssistantTextSegment i c) = False"

text \<open>The case \<^verbatim>\<open>response.output_item.updated\<close>.\<close>

definition on_item_updated :: "string \<Rightarrow> patch \<Rightarrow> engine \<Rightarrow> engine" where
  "on_item_updated itemId p st =
     (case locateSegment itemId st of
        (None, st1) \<Rightarrow> st1
      | (Some (rid, segmentIndex), st1) \<Rightarrow>
          (case map_of (responseStates st1) rid of
             None \<Rightarrow> st1
           | Some state \<Rightarrow>
               if segmentIndex < length (segments state) then
                 (let current = segments state ! segmentIndex in
                  if patch_state p = Some Hidden \<and> replaceWith p = None then
                    (let segs = take segmentIndex (segments state)
                                @ drop (Suc segmentIndex) (segments state);
                         st2 = st1\<lparr> responseStates :=
                                 AList.update rid (state\<lparr> segments := segs \<rparr>)
                                   (responseStates st1) \<rparr>;
                         st3 = st2\<lparr> itemToResponse := AList.delete itemId (itemToResponse st2) \<rparr>;
                         st4 = reindexResponseSegments rid st3;
                         st5 = st4\<lparr> responseStatesVersion := responseStatesVersion st4 + 1 \<rparr>;
                         st6 = refreshAssistantMessageContent rid st5
                     in if is_component current then clearComponentLoading (seg_id current) st6
                        else st6)
                  else
                    (case replaceWith p of
                       Some item \<Rightarrow>
                         (let st2 = replaceSegment rid segmentIndex (segment_of_item item) st1;
                              st3 = st2\<lparr> itemToResponse :=
                                            AList.delete itemId (itemToResponse st2) \<rparr>
                          in clearComponentLoading itemId st3)
                     | None \<Rightarrow>
                         (case current of
                            AssistantComponentSegment i c h \<Rightarrow>
                              (let updatedSegment = AssistantComponentSegment i c
                                     (if patch_state p = Some Hidden then Some True else h);
                                   st2 = (if patch_state p = Some Hidden
                                          then clearComponentLoading i st1 else st1)
                               in replaceSegment rid segmentIndex updatedSegment st2)
                          | AssistantTextSegment i c \<Rightarrow> st1)))
               else st1))"

text \<open>The case \<^verbatim>\<open>response.tool_call.started\<close>.\<close>

definition on_tool_started :: "string \<Rightarrow> json \<Rightarrow> engine \<Rightarrow> engine" where
  "on_tool_started callId args st =
     (let componentId =
            (case as_string (js_prop args ''componentId'') of
               Some c \<Rightarrow> Some c
             | None \<Rightarrow> as_string (js_prop args ''componentID''))
      in if str_truthy componentId then
           (let st1 = setComponentLoading (the componentId) True st
            in st1\<lparr> toolCallComponentMap :=
                       AList.update callId (the componentId) (toolCallComponentMap st1) \<rparr>)
         else st)"

text \<open>The case \<^verbatim>\<open>response.tool_call.completed\<close>.\<close>

definition on_tool_completed ::
  "string \<Rightarrow> call_status \<Rightarrow> string option \<Rightarrow> engine \<Rightarrow> engine" where
  "on_tool_completed callId status err st =
     (let componentId = map_of (toolCallComponentMap st) callId;
          st1 = (if str_truthy componentId then
                   (let st' = clearComponentLoading (the componentId) st
                    in st'\<lparr> toolCallComponentMap :=
                               AList.delete callId (toolCallComponentMap st') \<rparr>)
                 else st)
      in if status = Failure \<and> str_truthy err
         then st1\<lparr> errors := errors st1 @ [the err] \<rparr> else st1)"

text \<open>The callback given to \<^verbatim>\<open>API.agentChatStream\<close>: one case per event type.\<close>

fun handle :: "event_body \<Rightarrow> engine \<Rightarrow> engine" where
  "handle (AgentResponseStarted rid md) st =
     snd (getOrCreateResponseState rid (st\<lparr> activeResponseId := Some rid \<rparr>))"
| "handle (AgentOutputItemCreated rid item) st =
     (case target_response rid st of
        None \<Rightarrow> st
      | Some r \<Rightarrow> appendSegment r (segment_of_item item) st)"
| "handle (AgentOutputTextDelta rid itemId delta) st =
     (case target_response rid st of
        None \<Rightarrow> st
      | Some r \<Rightarrow> updateTextSegment itemId (\<lambda>content. content @ delta) st)"
| "handle (AgentOutputTextCompleted rid itemId text) st =
     updateTextSegment itemId (\<lambda>content. text) st"
| "handle (AgentOutputItemUpdated rid itemId p) st = on_item_updated itemId p st"
| "handle (AgentToolCallStarted rid callId name args) st = on_tool_started callId args st"
| "handle (AgentToolCallCompleted rid callId status result err) st =
     on_tool_completed callId status err st"
| "handle (AgentRunCompleted rid tokens) st =
     st\<lparr> activeResponseId := None, loading := False \<rparr>"
| "handle (AgentRunError rid m retryable) st =
     (let st1 = st\<lparr> activeResponseId := None, loading := False \<rparr>
      in if m \<noteq> [] then st1\<lparr> errors := errors st1 @ [m] \<rparr> else st1)"
| "handle (AgentRunSaved rid chatId revision md) st =
     st\<lparr> saved_id := Some chatId,
         saved_rev := (case revision of Some r \<Rightarrow> Some r | None \<Rightarrow> saved_rev st),
         dispatched := dispatched st @ [chatId] \<rparr>"

definition apply_event :: "stream_event \<Rightarrow> engine \<Rightarrow> engine" where
  "apply_event e st = handle (body e) st"

text \<open>What a segment list shows: components not hidden, texts that are not blank.\<close>

fun visible :: "segment \<Rightarrow> bool" where
  "visible (AssistantComponentSegment i c h) = (h \<noteq> Some True)"
| "visible (AssistantTextSegment i c) = (trim c \<noteq> [])"

text \<open>The response state behind the message at an index, if there is one.\<close>

definition state_at :: "engine \<Rightarrow> nat \<Rightarrow> response_state option" where
  "state_at st index =
     (case map_of (messageResponseMap st) index of
        None \<Rightarrow> None
      | Some rid \<Rightarrow> if rid \<noteq> [] then map_of (responseStates st) rid else None)"

text \<open>Without a response state a message shows its own trimmed text.\<close>

definition own_text :: "message \<Rightarrow> nat \<Rightarrow> segment list" where
  "own_text m index =
     (let content = (case msg_content m of ContentString s \<Rightarrow> trim s | _ \<Rightarrow> [])
      in if content \<noteq> []
         then [AssistantTextSegment (decimal index @ ''-text'') content] else [])"

definition getAssistantSegments :: "engine \<Rightarrow> message \<Rightarrow> nat \<Rightarrow> segment list" where
  "getAssistantSegments st m index =
     (case state_at st index of
        Some state \<Rightarrow> filter visible (segments state)
      | None \<Rightarrow> own_text m index)"

text \<open>
  The component with nothing known yet: its variables as \<^verbatim>\<open>onMount\<close> sets them, and the
  chat \<open>ms\<close> just assigned, before the reactive block has run on it.
\<close>

definition fresh :: "message list \<Rightarrow> engine" where
  "fresh ms =
     \<lparr> responseStates = [], itemToResponse = [], messageResponseMap = [],
       toolCallComponentMap = [], componentLoading = {}, responseStatesVersion = 0,
       activeResponseId = None, lastHydratedKey = None, messages = ms, saved_id = None,
       saved_rev = None,
       loading = True, errors = [], dispatched = [] \<rparr>"

text \<open>An engine that holds no response state and no index entry.\<close>

definition blank :: "engine \<Rightarrow> bool" where
  "blank st \<longleftrightarrow> responseStates st = [] \<and> itemToResponse st = [] \<and> messageResponseMap st = []"

section \<open>Rehydration from a stored chat (index.svelte, rehydrateFromChatHistory)\<close>

text \<open>
  The regular expression \<^verbatim>\<open>/\{\{toolResult:component:([^}]+)\}\}/g\<close>. One attempt at the
  start of a string: the opening text, then the longest non-empty run of characters other
  than a closing brace, then two closing braces. It gives the captured run and the rest of
  the string. (Giving back part of the run cannot help: the character after a shorter run
  is not a closing brace.)
\<close>

definition placeholder_open :: string where
  "placeholder_open = ''{{toolResult:component:''"

definition placeholder_close :: string where
  "placeholder_close = ''}}''"

definition match_here :: "string \<Rightarrow> (string \<times> string) option" where
  "match_here s =
     (if take (length placeholder_open) s = placeholder_open then
        (let rest = drop (length placeholder_open) s;
             name = takeWhile (\<lambda>c. c \<noteq> CHR ''}'') rest;
             after = dropWhile (\<lambda>c. c \<noteq> CHR ''}'') rest
         in if name \<noteq> [] \<and> take (length placeholder_close) after = placeholder_close
            then Some (name, drop (length placeholder_close) after) else None)
      else None)"

text \<open>
  \<^verbatim>\<open>exec\<close> from the current position: the leftmost match, as the text before it, the
  captured run and the text after it.
\<close>

fun find_placeholder :: "string \<Rightarrow> (string \<times> string \<times> string) option" where
  "find_placeholder [] = None"
| "find_placeholder (c # cs) =
     (case match_here (c # cs) of
        Some (name, rest) \<Rightarrow> Some ([], name, rest)
      | None \<Rightarrow>
          (case find_placeholder cs of
             Some (textBefore, name, rest) \<Rightarrow> Some (c # textBefore, name, rest)
           | None \<Rightarrow> None))"

text \<open>The id of a text segment rebuilt from history.\<close>

definition history_text_id :: "nat \<Rightarrow> nat \<Rightarrow> string" where
  "history_text_id index n = ''history-'' @ decimal index @ ''-text-'' @ decimal n"

text \<open>The text between two placeholders, when it is not blank.\<close>

definition push_text :: "nat \<Rightarrow> string \<Rightarrow> segment list \<Rightarrow> segment list" where
  "push_text index t segs =
     (if trim t \<noteq> []
      then segs @ [AssistantTextSegment (history_text_id index (length segs)) (trim t)]
      else segs)"

text \<open>
  What a placeholder becomes, given the decoded result of its tool message. As in the
  emitter, the component's \<^verbatim>\<open>componentId\<close> is read as the declared
  \<^verbatim>\<open>string | undefined\<close>.
\<close>

definition push_result :: "nat \<Rightarrow> string \<Rightarrow> json option \<Rightarrow> segment list \<Rightarrow> segment list" where
  "push_result index toolId result segs =
     (case result of
        None \<Rightarrow> segs
      | Some r \<Rightarrow>
          if truthy (Some r) \<and> truthy (js_prop r ''component'')
             \<and> \<not> truthy (js_prop r ''removeComponentMessage'')
             \<and> is_object (js_prop r ''component'')
          then
            (let payload = the (js_prop r ''component'');
                 componentId =
                   (if str_truthy (as_string (js_prop payload ''componentId''))
                    then the (as_string (js_prop payload ''componentId''))
                    else if toolId \<noteq> [] then toolId
                    else ''history-'' @ decimal index @ ''-component-'' @ decimal (length segs))
             in segs @ [AssistantComponentSegment componentId payload None])
          else if truthy (Some r) \<and> truthy (js_prop r ''removeComponentMessage'')
                  \<and> str_truthy (as_string (js_prop r ''message''))
          then segs @ [AssistantTextSegment (history_text_id index (length segs))
                         (the (as_string (js_prop r ''message'')))]
          else segs)"

text \<open>The \<^verbatim>\<open>while\<close> loop over the matches of one message's content, and the text after the last.\<close>

function scan :: "(string \<times> json) list \<Rightarrow> nat \<Rightarrow> string \<Rightarrow> segment list \<Rightarrow> segment list" where
  "scan toolResults index content segs =
     (case find_placeholder content of
        None \<Rightarrow> push_text index content segs
      | Some (textBefore, name, rest) \<Rightarrow>
          (let segs1 = push_text index textBefore segs;
               toolId = trim name;
               result = (if toolId \<noteq> [] then map_of toolResults toolId else None)
           in scan toolResults index rest (push_result index toolId result segs1)))"
  by pat_completeness auto
termination
proof (relation "measure (\<lambda>(toolResults, index, content, segs). length content)")
  show "wf (measure (\<lambda>(toolResults, index, content, segs). length content))"
    by simp
next
  fix toolResults :: "(string \<times> json) list" and index :: nat and content :: string
    and segs :: "segment list" and x2 textBefore y name rest segs1 toolId result
  assume f: "find_placeholder content = Some x2" and x: "(textBefore, y) = x2" "(name, rest) = y"
  have m: "length r < length s" if "match_here s = Some (n, r)" for s n r
  proof -
    define k where "k = length placeholder_open"
    define after where "after = dropWhile (\<lambda>c. c \<noteq> CHR ''}'') (drop k s)"
    from that have t: "take k s = placeholder_open"
      unfolding match_here_def k_def by (simp split: if_splits)
    with that have "r = drop (length placeholder_close) after"
      unfolding match_here_def Let_def k_def [symmetric] after_def [symmetric]
      by (simp split: if_splits)
    then have "length r \<le> length after" by simp
    also have "\<dots> \<le> length (drop k s)"
      unfolding after_def by (rule length_dropWhile_le)
    also have "\<dots> = length s - k" by simp
    finally have "length r \<le> length s - k" .
    moreover have "0 < k" by (simp add: k_def placeholder_open_def)
    moreover have "k \<le> length s"
    proof -
      have "length (take k s) = k" using t by (simp add: k_def)
      then show ?thesis by simp
    qed
    ultimately show ?thesis by linarith
  qed
  have "length r < length s" if "find_placeholder s = Some (b, n, r)" for s b n r
    using that
  proof (induction s arbitrary: b)
    case Nil
    then show ?case by simp
  next
    case (Cons c cs)
    show ?case
    proof (cases "match_here (c # cs)")
      case (Some p)
      with Cons.prems m [of "c # cs" n r] show ?thesis by (cases p) auto
    next
      case None
      with Cons.prems obtain b' where "find_placeholder cs = Some (b', n, r)"
        by (auto split: option.splits)
      from Cons.IH [OF this] show ?thesis by simp
    qed
  qed
  from this [of content textBefore name rest] f x
  show "((toolResults, index, rest, push_result index toolId result segs1),
         (toolResults, index, content, segs))
        \<in> measure (\<lambda>(toolResults, index, content, segs). length content)"
    by auto
qed

declare scan.simps [simp del]

text \<open>The text of a tool message: the string, or the text parts joined.\<close>

fun part_text :: "content_part \<Rightarrow> string" where
  "part_text (PartString s) = s"
| "part_text (PartObject (Some t)) = t"
| "part_text (PartObject None) = []"

definition tool_content :: "message \<Rightarrow> string" where
  "tool_content m =
     (case msg_content m of
        ContentString raw \<Rightarrow> raw
      | ContentParts items \<Rightarrow> concat (map part_text items)
      | ContentNull \<Rightarrow> [])"

text \<open>
  The first loop: the decoded result of every tool message, by tool call id. \<open>parse\<close> is
  \<^verbatim>\<open>JSON.parse\<close> (\<open>None\<close> when it throws).
\<close>

definition tool_result_of ::
  "(string \<Rightarrow> json option) \<Rightarrow> (string \<times> json) list \<Rightarrow> message \<Rightarrow> (string \<times> json) list" where
  "tool_result_of parse toolResults m =
     (if msg_role m = Tool \<and> str_truthy (tool_call_id m) then
        (case parse (if tool_content m \<noteq> [] then tool_content m else ''{}'') of
           Some parsed \<Rightarrow> AList.update (the (tool_call_id m)) parsed toolResults
         | None \<Rightarrow> toolResults)
      else toolResults)"

text \<open>The segments of one message; none for a message that is skipped.\<close>

definition rehydrate_message :: "(string \<times> json) list \<Rightarrow> nat \<Rightarrow> message \<Rightarrow> segment list" where
  "rehydrate_message toolResults index m =
     (if msg_role m \<noteq> Assistant then []
      else (case msg_content m of
              ContentString content \<Rightarrow>
                if content = [] then [] else scan toolResults index content []
            | _ \<Rightarrow> []))"

text \<open>One round of the second loop.\<close>

definition hydrate :: "(string \<times> json) list \<Rightarrow> engine \<Rightarrow> message \<times> nat \<Rightarrow> engine" where
  "hydrate toolResults st mi =
     (let (m, index) = mi;
          segs = rehydrate_message toolResults index m
      in if segs = [] then st
         else (let rid = ''history-'' @ decimal index
               in st\<lparr> responseStates :=
                         AList.update rid
                           \<lparr> responseId = rid, messageIndex = index, segments = segs \<rparr>
                           (responseStates st),
                       messageResponseMap := AList.update index rid (messageResponseMap st),
                       itemToResponse :=
                         foldl (\<lambda>mp (segment, segmentIndex).
                                  AList.update (seg_id segment) (rid, segmentIndex) mp)
                           (itemToResponse st) (zip segs [0 ..< length segs]) \<rparr>))"

definition rehydrateFromChatHistory :: "(string \<Rightarrow> json option) \<Rightarrow> engine \<Rightarrow> engine" where
  "rehydrateFromChatHistory parse st =
     (if messages st = [] then st
      else (let toolResults = foldl (tool_result_of parse) [] (messages st);
                st0 = st\<lparr> responseStates := [], itemToResponse := [],
                          messageResponseMap := [], componentLoading := {} \<rparr>;
                st1 = foldl (hydrate toolResults) st0
                        (zip (messages st) [0 ..< length (messages st)])
            in st1\<lparr> responseStatesVersion := responseStatesVersion st1 + 1 \<rparr>))"

section \<open>The reactive block and the arrival of events (index.svelte)\<close>

text \<open>
  The statement \<^verbatim>\<open>$: if (!activeResponseId && chat?.messages?.length && ...)\<close>. Svelte
  runs it in the update that follows an assignment to \<^verbatim>\<open>chat\<close>, \<^verbatim>\<open>activeResponseId\<close> or
  \<^verbatim>\<open>lastHydratedKey\<close>, once the code that made the assignment has returned. With no
  response active and a chat that is not empty, it rebuilds the engine from the chat
  history unless it did so for the same revision and number of messages.
\<close>

definition hydration_key :: "engine \<Rightarrow> string" where
  "hydration_key st =
     (case saved_rev st of Some r \<Rightarrow> r | None \<Rightarrow> ''no-rev'') @ '':''
       @ decimal (length (messages st))"

definition react :: "(string \<Rightarrow> json option) \<Rightarrow> engine \<Rightarrow> engine" where
  "react parse st =
     (if \<not> str_truthy (activeResponseId st) \<and> messages st \<noteq> [] then
        (if Some (hydration_key st) \<noteq> lastHydratedKey st
         then (rehydrateFromChatHistory parse st)\<lparr> lastHydratedKey := Some (hydration_key st) \<rparr>
         else st)
      else st)"

text \<open>
  Events reach the callback one by one; events read from the same network chunk are
  handled back to back, and the update runs after the last of them. A schedule pairs each
  event with a flag: whether the update, and so the reactive block, runs right after it.
\<close>

definition arrive :: "(string \<Rightarrow> json option) \<Rightarrow> engine \<Rightarrow> stream_event \<times> bool \<Rightarrow> engine" where
  "arrive parse st ef =
     (if snd ef then react parse (apply_event (fst ef) st) else apply_event (fst ef) st)"

definition live :: "(string \<Rightarrow> json option) \<Rightarrow> engine \<Rightarrow> (stream_event \<times> bool) list \<Rightarrow> engine" where
  "live parse st schedule = foldl (arrive parse) st schedule"

text \<open>
  The component with the chat \<open>ms\<close> in hand and the reactive block run on it: the state in
  which \<^verbatim>\<open>prompt\<close>, having added the user's message to the chat and awaited the update,
  opens the stream.
\<close>

definition ready :: "(string \<Rightarrow> json option) \<Rightarrow> message list \<Rightarrow> engine" where
  "ready parse ms = react parse (fresh ms)"

text \<open>A segment without its id, to compare segment lists up to ids.\<close>

fun unlabel :: "segment \<Rightarrow> segment" where
  "unlabel (AssistantTextSegment i c) = AssistantTextSegment [] c"
| "unlabel (AssistantComponentSegment i c h) = AssistantComponentSegment [] c h"

text \<open>Reading decimal digits back.\<close>

definition undecimal :: "string \<Rightarrow> nat" where
  "undecimal s = foldl (\<lambda>a c. 10 * a + (of_char c - 48)) 0 s"

text \<open>
  The content \<^verbatim>\<open>refreshAssistantMessageContent\<close> stores for a segment list, and the
  assistant message with that content.
\<close>

definition stored_text :: "segment list \<Rightarrow> string" where
  "stored_text segs = trim (join ''\<newline>\<newline>'' (concat (map segment_part segs)))"

definition backing :: "string \<Rightarrow> message" where
  "backing t = \<lparr> msg_role = Assistant, msg_content = ContentString t,
                 tool_calls = None, tool_call_id = None \<rparr>"

text \<open>
  \<open>run_state rid n prior a others st\<close>: a response \<open>rid\<close> is active; it backs the message
  after \<open>prior\<close>, its first segment is the text item \<open>n\<close> with content \<open>a\<close>, followed by
  \<open>others\<close>; the reverse index knows \<open>n\<close>, and the message stores the segments' text.
\<close>

definition run_state ::
  "string \<Rightarrow> string \<Rightarrow> message list \<Rightarrow> string \<Rightarrow> segment list \<Rightarrow> engine \<Rightarrow> bool" where
  "run_state rid n prior a others st \<longleftrightarrow>
     map_of (responseStates st) rid =
       Some \<lparr> responseId = rid, messageIndex = length prior,
              segments = AssistantTextSegment n a # others \<rparr> \<and>
     map_of (itemToResponse st) n = Some (rid, 0) \<and>
     map_of (messageResponseMap st) (length prior) = Some rid \<and>
     activeResponseId st = Some rid \<and>
     messages st = prior @ [backing (stored_text (AssistantTextSegment n a # others))]"
section \<open>Example inputs\<close>

text \<open>
  Concrete collaborators: identifiers \<^verbatim>\<open>u\<close>, \<^verbatim>\<open>ui\<close>, \<^verbatim>\<open>uii\<close>, ..., a parser that
  knows the JSON texts used below, a title prompt and a store that succeed.
\<close>

definition demo_parse :: "string \<Rightarrow> json option" where
  \<open>demo_parse = map_of
     [(''{}'', JObj []),
      (''{"removeComponentMessage":true,"componentId":"c1","message":"Saved"}'',
         JObj [(''removeComponentMessage'', JBool True), (''componentId'', JStr ''c1''),
               (''message'', JStr ''Saved'')]),
      (''{"component":{"componentId":"c1"}}'',
         JObj [(''component'', JObj [(''componentId'', JStr ''c1'')])]),
      (''{"removeComponentMessage":true,"componentId":"c1"}'',
         JObj [(''removeComponentMessage'', JBool True), (''componentId'', JStr ''c1'')])]\<close>

definition demo_env :: env where
  "demo_env =
     \<lparr> uuid = (\<lambda>n. CHR ''u'' # replicate n (CHR ''i'')),
       now = (\<lambda>n. ''2026-01-01T00:00:00.000Z''),
       json_parse = demo_parse,
       json_stringify = (\<lambda>v. ''{}''),
       generateAgentChatID = ''agentchat_1'',
       title_prompt = (\<lambda>ms. Inr ''A title''),
       db_put = (\<lambda>c. Inr (Some ''1-abc'')) \<rparr>"

text \<open>The same collaborators with a title prompt that throws.\<close>

definition demo_env_no_title :: env where
  "demo_env_no_title = demo_env\<lparr> title_prompt := (\<lambda>ms. Inl ''title model unavailable'') \<rparr>"

definition demo_chat :: agent_chat where
  "demo_chat =
     \<lparr> chat_id = None, chat_rev = None, agentId = ''agent_1'', title = None,
       chat_messages = [\<lparr> msg_role = User, msg_content = ContentString ''Hello?'',
                          tool_calls = None, tool_call_id = None \<rparr>] \<rparr>"

definition content_chunk :: "string \<Rightarrow> llm_chunk" where
  "content_chunk s =
     \<lparr> chunk_type = Content, chunk_content = Some s, toolCall = None, toolResult = None,
       chunk_messages = None, tokensUsed = None \<rparr>"

definition result_chunk :: "string \<Rightarrow> string \<Rightarrow> llm_chunk" where
  "result_chunk i r =
     \<lparr> chunk_type = Tool_call_result, chunk_content = None, toolCall = None,
       toolResult = Some \<lparr> tr_id = i, tr_result = r, tr_error = None \<rparr>,
       chunk_messages = None, tokensUsed = None \<rparr>"

definition error_chunk :: "string \<Rightarrow> llm_chunk" where
  "error_chunk s =
     \<lparr> chunk_type = Error, chunk_content = Some s, toolCall = None, toolResult = None,
       chunk_messages = None, tokensUsed = None \<rparr>"

definition done_chunk :: "message list \<Rightarrow> nat \<Rightarrow> llm_chunk" where
  "done_chunk ms n =
     \<lparr> chunk_type = Done, chunk_content = None, toolCall = None, toolResult = None,
       chunk_messages = Some ms, tokensUsed = Some n \<rparr>"

definition demo_messages :: "message list" where
  "demo_messages =
     [\<lparr> msg_role = User, msg_content = ContentString ''Hello?'',
        tool_calls = None, tool_call_id = None \<rparr>,
      \<lparr> msg_role = Assistant, msg_content = ContentString ''Hi'',
        tool_calls = None, tool_call_id = None \<rparr>]"

text \<open>
  An engine that has seen one component item \<^verbatim>\<open>c1\<close> of response \<^verbatim>\<open>r1\<close>, and the two
  patches a removal directive can carry for it.
\<close>

definition demo_component :: output_item where
  "demo_component =
     ComponentItem ''c1'' ''assistant'' (JObj [(''componentId'', JStr ''c1'')])
       (Some [(''sourceToolCallId'', JStr ''call_1'')])"

definition demo_engine :: engine where
  "demo_engine =
     handle (AgentOutputItemCreated ''r1'' demo_component) (fresh (chat_messages demo_chat))"

definition hide_patch :: patch where
  "hide_patch = \<lparr> patch_state = Some Hidden, patch_metadata = None, replaceWith = None \<rparr>"

definition replace_patch :: patch where
  "replace_patch =
     \<lparr> patch_state = Some Hidden, patch_metadata = None,
       replaceWith = Some (TextItem ''c1-result-u'' ''assistant'' ''Saved'' None) \<rparr>"

text \<open>A successful tool result that removes component \<^verbatim>\<open>c1\<close> and leaves a message.\<close>

definition removal_result :: tool_result where
  \<open>removal_result =
     \<lparr> tr_id = ''call_2'',
       tr_result = ''{"removeComponentMessage":true,"componentId":"c1","message":"Saved"}'',
       tr_error = None \<rparr>\<close>

definition removal_object :: json where
  "removal_object =
     JObj [(''removeComponentMessage'', JBool True), (''componentId'', JStr ''c1''),
           (''message'', JStr ''Saved'')]"

definition demo_state :: response_state where
  "demo_state =
     \<lparr> responseId = ''r1'', messageIndex = 1,
       segments = [AssistantComponentSegment ''c1'' (JObj [(''componentId'', JStr ''c1'')]) None] \<rparr>"

text \<open>Events as they arrive from the wire.\<close>

definition started_event :: stream_event where
  "started_event =
     \<lparr> eventId = ''e0'', runId = ''run1'', sequence = 0, timestamp = ''2026-01-01T00:00:00.000Z'',
       body = AgentResponseStarted ''r1'' None \<rparr>"

definition created_event :: stream_event where
  "created_event =
     \<lparr> eventId = ''e1'', runId = ''run1'', sequence = 1, timestamp = ''2026-01-01T00:00:00.000Z'',
       body = AgentOutputItemCreated ''r1'' demo_component \<rparr>"

definition text_created_event :: stream_event where
  "text_created_event =
     \<lparr> eventId = ''e2'', runId = ''run1'', sequence = 1, timestamp = ''2026-01-01T00:00:00.000Z'',
       body = AgentOutputItemCreated ''r1'' (TextItem ''t1'' ''assistant'' [] None) \<rparr>"

definition delta_event :: stream_event where
  "delta_event =
     \<lparr> eventId = ''e3'', runId = ''run1'', sequence = 2, timestamp = ''2026-01-01T00:00:00.000Z'',
       body = AgentOutputTextDelta ''r1'' ''t1'' ''Hi'' \<rparr>"

definition hide_event :: stream_event where
  "hide_event =
     \<lparr> eventId = ''e4'', runId = ''run1'', sequence = 3, timestamp = ''2026-01-01T00:00:00.000Z'',
       body = AgentOutputItemUpdated ''r1'' ''c1'' hide_patch \<rparr>"

definition replace_event :: stream_event where
  "replace_event =
     \<lparr> eventId = ''e5'', runId = ''run1'', sequence = 4, timestamp = ''2026-01-01T00:00:00.000Z'',
       body = AgentOutputItemUpdated ''r1'' ''c1'' replace_patch \<rparr>"

text \<open>
  The component holding the chat with the user's message, the reactive block run; then
  with response \<^verbatim>\<open>r1\<close> started and the component item, or an empty text item,
  created, the update run after each event.
\<close>

definition demo_ready :: engine where
  "demo_ready = ready demo_parse (chat_messages demo_chat)"

definition demo_run :: engine where
  "demo_run = live demo_parse demo_ready [(started_event, True), (created_event, True)]"

definition demo_text_run :: engine where
  "demo_text_run = live demo_parse demo_ready [(started_event, True), (text_created_event, True)]"

definition demo_text_state :: response_state where
  "demo_text_state =
     \<lparr> responseId = ''r1'', messageIndex = 1, segments = [AssistantTextSegment ''t1'' []] \<rparr>"

text \<open>
  A run that streams \<^verbatim>\<open>Hi\<close>, calls a tool, and ends with final messages in which the
  assistant message carries its text and the tool call.
\<close>

definition tool_messages :: "message list" where
  \<open>tool_messages =
     [\<lparr> msg_role = User, msg_content = ContentString ''Hello?'',
        tool_calls = None, tool_call_id = None \<rparr>,
      \<lparr> msg_role = Assistant, msg_content = ContentString ''Hi'',
        tool_calls = Some [\<lparr> call_id = ''call_1'', call_type = ''function'',
                             call_function = Some \<lparr> fn_name = ''list_tables'',
                                                    fn_arguments = ''{}'' \<rparr> \<rparr>],
        tool_call_id = None \<rparr>,
      \<lparr> msg_role = Tool, msg_content = ContentString ''{}'',
        tool_calls = None, tool_call_id = Some ''call_1'' \<rparr>]\<close>

definition tool_stream :: "(string + llm_chunk) list" where
  "tool_stream =
     [Inr (content_chunk ''Hi''),
      Inr \<lparr> chunk_type = Tool_call_start, chunk_content = None,
            toolCall = Some \<lparr> tc_id = ''call_1'', tc_name = ''list_tables'', tc_arguments = ''{}'' \<rparr>,
            toolResult = None, chunk_messages = None, tokensUsed = None \<rparr>,
      Inr (result_chunk ''call_1'' ''{}''),
      Inr (done_chunk tool_messages 12)]"

section \<open>Properties of the run emitter\<close>

lemma etypes_simps [simp]: "etypes [] = []" "etypes (e # es) = etype (body e) # etypes es"
  "etypes (xs @ ys) = etypes xs @ etypes ys"
  by (simp_all add: etypes_def)

lemma steps_refl: "steps st [] st"
  by (simp add: steps_def)

lemma steps_trans:
  "steps st es st' \<Longrightarrow> steps st' es' st'' \<Longrightarrow> steps st (es @ es') st''"
proof -
  assume a: "steps st es st'" and b: "steps st' es' st''"
  have "[next_sequence st ..< next_sequence st + length es + length es'] =
        [next_sequence st ..< next_sequence st + length es] @
        [next_sequence st + length es ..< next_sequence st + length es + length es']"
    by (rule upt_add_eq_append) simp
  with a b show ?thesis by (simp add: steps_def add.assoc)
qed

lemma steps_emit:
  "\<exists>ev. steps st [ev] (emitEventInternal E b st) \<and> body ev = b"
  by (simp add: steps_def emitEventInternal_def)

lemma steps_uuid: "randomUUID E st = (u, st') \<Longrightarrow> steps st [] st'"
  by (auto simp: steps_def randomUUID_def)

lemma steps_upd_active: "steps st [] (st\<lparr>activeTextItemId := a\<rparr>)"
  by (simp add: steps_def)

lemma steps_upd_acc: "steps st [] (st\<lparr>accumulatedText := a\<rparr>)"
  by (simp add: steps_def)

lemma steps_create_text:
  assumes "randomUUID E st = (n, st1)"
  shows "\<exists>es. steps st es (emitEventInternal E (AgentOutputItemCreated r (TextItem n ro t md))
            (st1\<lparr>activeTextItemId := Some n\<rparr>)) \<and> etypes es = [Output_item_created]"
proof -
  obtain ev where ev: "steps (st1\<lparr>activeTextItemId := Some n\<rparr>) [ev]
      (emitEventInternal E (AgentOutputItemCreated r (TextItem n ro t md)) (st1\<lparr>activeTextItemId := Some n\<rparr>))"
    "body ev = AgentOutputItemCreated r (TextItem n ro t md)"
    using steps_emit by blast
  have "steps st ([] @ [] @ [ev]) (emitEventInternal E (AgentOutputItemCreated r (TextItem n ro t md))
            (st1\<lparr>activeTextItemId := Some n\<rparr>))"
    by (rule steps_trans [OF steps_uuid [OF assms] steps_trans [OF steps_upd_active ev(1)]])
  with ev(2) show ?thesis by auto
qed

lemma steps_ensureTextItem:
  assumes "ensureTextItem E st = (i, st')"
  shows "\<exists>es. steps st es st' \<and> etypes es =
       (if str_truthy (activeTextItemId st) then [] else [Output_item_created])"
proof (cases "str_truthy (activeTextItemId st)")
  case True
  then have "st' = st" using assms
    by (auto simp: ensureTextItem_def str_truthy_def split: option.splits)
  with True show ?thesis using steps_refl [of st] by (intro exI [of _ "[]"]) simp
next
  case False
  obtain n st1 where u: "randomUUID E st = (n, st1)" by (cases "randomUUID E st")
  have "st' = emitEventInternal E (AgentOutputItemCreated (response_id (st1\<lparr>activeTextItemId := Some n\<rparr>)) (TextItem n ''assistant'' [] None))
            (st1\<lparr>activeTextItemId := Some n\<rparr>)"
    using assms False u
    by (auto simp: ensureTextItem_def str_truthy_def Let_def split: option.splits)
  with steps_create_text [OF u] False show ?thesis by simp
qed

lemma steps_on_content:
  "\<exists>es. steps st es (on_content E c st) \<and> etypes es =
     (if str_truthy (activeTextItemId st) then [] else [Output_item_created]) @ [Output_text_delta]"
proof -
  obtain i st1 where e: "ensureTextItem E st = (i, st1)" by (cases "ensureTextItem E st")
  from steps_ensureTextItem [OF e] obtain es where
    es: "steps st es st1" "etypes es = (if str_truthy (activeTextItemId st) then [] else [Output_item_created])"
    by blast
  let ?st2 = "st1\<lparr>accumulatedText := accumulatedText st1 @ c\<rparr>"
  obtain ev where ev: "steps ?st2 [ev] (emitEventInternal E (AgentOutputTextDelta (response_id ?st2) i c) ?st2)"
    "body ev = AgentOutputTextDelta (response_id ?st2) i c"
    using steps_emit by blast
  have "on_content E c st = emitEventInternal E (AgentOutputTextDelta (response_id ?st2) i c) ?st2"
    using e by (simp add: on_content_def Let_def)
  moreover have "steps st (es @ [] @ [ev]) (emitEventInternal E (AgentOutputTextDelta (response_id ?st2) i c) ?st2)"
    by (rule steps_trans [OF es(1) steps_trans [OF steps_upd_acc ev(1)]])
  ultimately show ?thesis using es(2) ev(2) by (intro exI [of _ "es @ [] @ [ev]"]) simp
qed

lemma steps_on_tool_call_start:
  "\<exists>es. steps st es (on_tool_call_start E tc st) \<and> etypes es = [Tool_call_started]"
proof -
  obtain b where "on_tool_call_start E tc st = emitEventInternal E b st" "etype b = Tool_call_started"
    by (simp add: on_tool_call_start_def Let_def)
  then show ?thesis using steps_emit [of st E b] by auto
qed


lemma steps_emit_types:
  "\<exists>es. steps st es (emitEventInternal E b st) \<and> etypes es = [etype b] \<and> map body es = [b]"
  using steps_emit [of st E b] by (auto simp: etypes_def)

lemma steps_message_directive:
  "\<exists>es. steps st es (message_directive E cid obj st) \<and> etypes es =
     (if str_truthy (as_string (js_prop obj ''message''))
      then [Output_item_created, Output_text_completed] else [])"
proof (cases "str_truthy (as_string (js_prop obj ''message''))")
  case False
  then have "message_directive E cid obj st = st"
    by (auto simp: message_directive_def str_truthy_def split: option.splits)
  with False show ?thesis using steps_refl [of st] by (intro exI [of _ "[]"]) simp
next
  case True
  then obtain m where m: "as_string (js_prop obj ''message'') = Some m" "m \<noteq> []"
    by (auto simp: str_truthy_def split: option.splits)
  obtain u st1 where u: "randomUUID E st = (u, st1)" by (cases "randomUUID E st")
  define b1 where "b1 = AgentOutputItemCreated (response_id st1)
      (TextItem u ''assistant'' m (Some [(''sourceToolCallId'', JStr cid)]))"
  define st2 where "st2 = emitEventInternal E b1 st1"
  define b2 where "b2 = AgentOutputTextCompleted (response_id st2) u m"
  have eq: "message_directive E cid obj st = emitEventInternal E b2 st2"
    using m u by (simp add: message_directive_def Let_def b1_def b2_def st2_def)
  obtain es1 where es1: "steps st1 es1 st2" "etypes es1 = [etype b1]"
    unfolding st2_def using steps_emit_types by blast
  obtain es2 where es2: "steps st2 es2 (emitEventInternal E b2 st2)" "etypes es2 = [etype b2]"
    using steps_emit_types by blast
  have "steps st ([] @ es1 @ es2) (emitEventInternal E b2 st2)"
    by (rule steps_trans [OF steps_uuid [OF u] steps_trans [OF es1(1) es2(1)]])
  with eq es1(2) es2(2) True show ?thesis
    by (intro exI [of _ "[] @ es1 @ es2"]) (simp add: b1_def b2_def)
qed

lemma steps_component_id_of: "component_id_of E payload st = (c, st1) \<Longrightarrow> steps st [] st1"
  using steps_refl [of st] steps_uuid [of E st c st1]
  by (auto simp: component_id_of_def split: option.splits if_splits)

lemma steps_component_directive:
  "\<exists>es. steps st es (component_directive E cid obj st) \<and> etypes es =
     (if is_object (js_prop obj ''component'') then [Output_item_created] else [])"
proof (cases "is_object (js_prop obj ''component'')")
  case False
  then have "component_directive E cid obj st = st"
    by (auto simp: component_directive_def split: option.splits)
  with False show ?thesis using steps_refl [of st] by (intro exI [of _ "[]"]) simp
next
  case True
  then obtain payload where p: "js_prop obj ''component'' = Some payload" "is_object (Some payload)"
    by (cases "js_prop obj ''component''") auto
  obtain c st1 where c: "component_id_of E payload st = (c, st1)"
    by (cases "component_id_of E payload st")
  define b where "b = AgentOutputItemCreated (response_id st1)
      (ComponentItem c ''assistant'' payload (Some [(''sourceToolCallId'', JStr cid)]))"
  have eq: "component_directive E cid obj st = emitEventInternal E b st1"
    using p c by (simp add: component_directive_def b_def)
  obtain es where es: "steps st1 es (emitEventInternal E b st1)" "etypes es = [etype b]"
    using steps_emit_types by blast
  have "steps st ([] @ es) (emitEventInternal E b st1)"
    by (rule steps_trans [OF steps_component_id_of [OF c] es(1)])
  with eq es(2) True show ?thesis
    by (intro exI [of _ "[] @ es"]) (simp add: b_def)
qed

lemma steps_removal_patch: "removal_patch E cid obj c st = (p, st1) \<Longrightarrow> steps st [] st1"
  using steps_refl [of st] steps_uuid [of E st _ st1]
  by (auto simp: removal_patch_def Let_def split: if_splits prod.splits)

lemma steps_remove_directive:
  "\<exists>es. steps st es (remove_directive E cid obj st) \<and> etypes es =
     (if removal obj then [Output_item_updated] else [])"
proof (cases "removal obj")
  case False
  then have "remove_directive E cid obj st = st"
    by (auto simp: remove_directive_def removal_def str_truthy_def split: option.splits)
  with False show ?thesis using steps_refl [of st] by (intro exI [of _ "[]"]) simp
next
  case True
  then obtain c where c: "truthy (js_prop obj ''removeComponentMessage'')"
      "as_string (js_prop obj ''componentId'') = Some c" "c \<noteq> []"
    by (auto simp: removal_def str_truthy_def split: option.splits)
  obtain p st1 where pr: "removal_patch E cid obj c st = (p, st1)"
    by (cases "removal_patch E cid obj c st")
  define b where "b = AgentOutputItemUpdated (response_id st1) c p"
  have eq: "remove_directive E cid obj st = emitEventInternal E b st1"
    using c pr by (simp add: remove_directive_def b_def)
  obtain es where es: "steps st1 es (emitEventInternal E b st1)" "etypes es = [etype b]"
    using steps_emit_types by blast
  have "steps st ([] @ es) (emitEventInternal E b st1)"
    by (rule steps_trans [OF steps_removal_patch [OF pr] es(1)])
  with eq es(2) True show ?thesis
    by (intro exI [of _ "[] @ es"]) (simp add: b_def)
qed


lemma steps_on_tool_call_result:
  "\<exists>es. steps st es (on_tool_call_result E tr st) \<and> etypes es =
     Tool_call_completed #
     (if str_truthy (tr_error tr) then []
      else (case parse_result E (tr_result tr) of
              Raw s \<Rightarrow> []
            | Structured obj \<Rightarrow>
                (if str_truthy (as_string (js_prop obj ''message''))
                 then [Output_item_created, Output_text_completed] else []) @
                (if is_object (js_prop obj ''component'') then [Output_item_created] else []) @
                (if removal obj then [Output_item_updated] else [])))"
proof -
  define b where "b = AgentToolCallCompleted (response_id st) (tr_id tr)
               (if str_truthy (tr_error tr) then Failure else Success)
               (if str_truthy (tr_error tr) then None else Some (parse_result E (tr_result tr)))
               (if str_truthy (tr_error tr) then tr_error tr else None)"
  define st1 where "st1 = emitEventInternal E b st"
  obtain es1 where es1: "steps st es1 st1" "etypes es1 = [Tool_call_completed]"
    unfolding st1_def using steps_emit_types [of st E b] by (auto simp: b_def)
  show ?thesis
  proof (cases "str_truthy (tr_error tr)")
    case True
    then have "on_tool_call_result E tr st = st1"
      by (simp add: on_tool_call_result_def Let_def st1_def b_def)
    with es1 True show ?thesis by (intro exI [of _ es1]) simp
  next
    case False
    show ?thesis
    proof (cases "parse_result E (tr_result tr)")
      case (Raw r)
      with False have "on_tool_call_result E tr st = st1"
        by (simp add: on_tool_call_result_def Let_def st1_def b_def)
      with es1 False Raw show ?thesis by (intro exI [of _ es1]) simp
    next
      case (Structured obj)
      define st2 where "st2 = message_directive E (tr_id tr) obj st1"
      define st3 where "st3 = component_directive E (tr_id tr) obj st2"
      define st4 where "st4 = remove_directive E (tr_id tr) obj st3"
      from Structured False have eq: "on_tool_call_result E tr st = st4"
        by (simp add: on_tool_call_result_def Let_def st1_def b_def st2_def st3_def st4_def)
      obtain es2 where es2: "steps st1 es2 st2" "etypes es2 =
         (if str_truthy (as_string (js_prop obj ''message''))
          then [Output_item_created, Output_text_completed] else [])"
        unfolding st2_def using steps_message_directive by blast
      obtain es3 where es3: "steps st2 es3 st3" "etypes es3 =
         (if is_object (js_prop obj ''component'') then [Output_item_created] else [])"
        unfolding st3_def using steps_component_directive by blast
      obtain es4 where es4: "steps st3 es4 st4" "etypes es4 =
         (if removal obj then [Output_item_updated] else [])"
        unfolding st4_def using steps_remove_directive by blast
      have "steps st (es1 @ es2 @ es3 @ es4) st4"
        by (rule steps_trans [OF es1(1) steps_trans [OF es2(1) steps_trans [OF es3(1) es4(1)]]])
      with eq es1(2) es2(2) es3(2) es4(2) False Structured show ?thesis
        by (intro exI [of _ "es1 @ es2 @ es3 @ es4"]) simp
    qed
  qed
qed

lemma steps_on_error:
  "\<exists>es. steps st es (on_error E c st) \<and>
     map body es = [AgentRunError (response_id st) (error_message c) (Some False)]"
  unfolding on_error_def
  using steps_emit_types [of st E "AgentRunError (response_id st) (error_message c) (Some False)"]
  by auto

lemma steps_on_done:
  "\<exists>es. steps st es (on_done E c st) \<and> etypes es =
     (if str_truthy (activeTextItemId st) then [Output_text_completed] else [])
     @ [Response_completed]"
proof -
  define b1 where "b1 = AgentOutputTextCompleted (response_id st)
                        (the (activeTextItemId st)) (accumulatedText st)"
  define st1 where "st1 = (if str_truthy (activeTextItemId st) then emitEventInternal E b1 st else st)"
  define b2 where "b2 = AgentRunCompleted (response_id st1)
     (Some (case tokensUsed c of Some n \<Rightarrow> n | None \<Rightarrow> 0))"
  have eq: "on_done E c st = emitEventInternal E b2 st1"
    by (simp add: on_done_def Let_def st1_def b1_def b2_def)
  obtain es1 where es1: "steps st es1 st1" "etypes es1 =
     (if str_truthy (activeTextItemId st) then [Output_text_completed] else [])"
  proof (cases "str_truthy (activeTextItemId st)")
    case True
    then show ?thesis using that steps_emit_types [of st E b1] by (auto simp: st1_def b1_def)
  next
    case False
    then show ?thesis using that [of "[]"] steps_refl [of st] by (simp add: st1_def)
  qed
  obtain es2 where es2: "steps st1 es2 (emitEventInternal E b2 st1)" "etypes es2 = [etype b2]"
    using steps_emit_types by blast
  have "steps st (es1 @ es2) (emitEventInternal E b2 st1)"
    by (rule steps_trans [OF es1(1) es2(1)])
  with eq es1(2) es2(2) show ?thesis
    by (intro exI [of _ "es1 @ es2"]) (simp add: b2_def)
qed

lemma list_all_mid_simps [simp]:
  "mid Output_text_delta" "mid Output_text_completed" "mid Output_item_created"
  "mid Output_item_updated" "mid Tool_call_started" "mid Tool_call_completed"
  "\<not> mid Response_started" "\<not> mid Response_completed" "\<not> mid Response_error"
  "\<not> mid Response_saved"
  by (simp_all add: mid_def)

lemma handle_chunk_control:
  "snd (handle_chunk E c st) = Next \<longleftrightarrow> goes_on (Inr c)"
  "snd (handle_chunk E c st) = Return \<longleftrightarrow> chunk_type c = Error"
  "snd (handle_chunk E c st) = Break ms n \<longleftrightarrow> chunk_type c = Done
      \<and> ms = (case chunk_messages c of Some ms \<Rightarrow> ms | None \<Rightarrow> [])
      \<and> n = (case tokensUsed c of Some n \<Rightarrow> n | None \<Rightarrow> 0)"
  by (simp_all add: handle_chunk_def) auto

lemma handle_chunk_Next:
  assumes "handle_chunk E c st = (st', Next)"
  shows "\<exists>es. steps st es st' \<and> list_all mid (etypes es)"
proof -
  consider (a) "chunk_type c = Content \<and> str_truthy (chunk_content c)"
    | (b) "\<not> (chunk_type c = Content \<and> str_truthy (chunk_content c))" "chunk_type c = Tool_call_start \<and> toolCall c \<noteq> None"
    | (c) "\<not> (chunk_type c = Content \<and> str_truthy (chunk_content c))" "\<not> (chunk_type c = Tool_call_start \<and> toolCall c \<noteq> None)"
          "chunk_type c = Tool_call_result \<and> toolResult c \<noteq> None"
    | (d) "\<not> (chunk_type c = Content \<and> str_truthy (chunk_content c))" "\<not> (chunk_type c = Tool_call_start \<and> toolCall c \<noteq> None)"
          "\<not> (chunk_type c = Tool_call_result \<and> toolResult c \<noteq> None)"
    by blast
  then show ?thesis
  proof cases
    case a
    then have "st' = on_content E (the (chunk_content c)) st"
      using assms by (simp add: handle_chunk_def)
    then show ?thesis using steps_on_content [of st E "the (chunk_content c)"] by auto
  next
    case b
    then have "st' = on_tool_call_start E (the (toolCall c)) st"
      using assms by (simp add: handle_chunk_def)
    then show ?thesis using steps_on_tool_call_start [of st E "the (toolCall c)"] by auto
  next
    case c
    then have "st' = on_tool_call_result E (the (toolResult c)) st"
      using assms by (simp add: handle_chunk_def)
    moreover obtain es where es: "steps st es (on_tool_call_result E (the (toolResult c)) st)"
       "etypes es = Tool_call_completed #
     (if str_truthy (tr_error (the (toolResult c))) then []
      else (case parse_result E (tr_result (the (toolResult c))) of
              Raw s \<Rightarrow> []
            | Structured obj \<Rightarrow>
                (if str_truthy (as_string (js_prop obj ''message''))
                 then [Output_item_created, Output_text_completed] else []) @
                (if is_object (js_prop obj ''component'') then [Output_item_created] else []) @
                (if removal obj then [Output_item_updated] else [])))"
      using steps_on_tool_call_result [of st E "the (toolResult c)"] by blast
    moreover have "list_all mid (etypes es)"
      unfolding es(2) by (simp split: tool_value.splits)
    ultimately show ?thesis by blast
  next
    case d
    then have "st' = st"
      using assms by (simp add: handle_chunk_def split: if_splits)
    then show ?thesis using steps_refl [of st] by (intro exI [of _ "[]"]) simp
  qed
qed

lemma handle_chunk_Return:
  assumes "handle_chunk E c st = (st', Return)"
  shows "\<exists>es. steps st es st' \<and>
     map body es = [AgentRunError (response_id st) (error_message c) (Some False)]"
proof -
  have "st' = on_error E c st"
    using assms by (simp add: handle_chunk_def split: if_splits)
  then show ?thesis using steps_on_error [of st E c] by simp
qed

lemma handle_chunk_Break:
  assumes "handle_chunk E c st = (st', Break ms n)"
  shows "\<exists>es. steps st es st' \<and> etypes es =
     (if str_truthy (activeTextItemId st) then [Output_text_completed] else [])
     @ [Response_completed]"
proof -
  have "st' = on_done E c st"
    using assms by (simp add: handle_chunk_def split: if_splits)
  then show ?thesis using steps_on_done [of st E c] by simp
qed

lemma exit_types_prepend:
  "list_all mid ts1 \<Longrightarrow> exit_types x ts2 \<Longrightarrow> exit_types x (ts1 @ ts2)"
proof (cases x)
  case Returned
  assume "list_all mid ts1" "exit_types x ts2"
  with Returned obtain pre where "ts2 = pre @ [Response_error]" "list_all mid pre" by auto
  with \<open>list_all mid ts1\<close> have "exit_types Returned (ts1 @ ts2)"
    unfolding exit_types.simps by (intro exI [of _ "ts1 @ pre"]) simp
  with Returned show ?thesis by simp
next
  case (Thrown m)
  assume "list_all mid ts1" "exit_types x ts2"
  with Thrown show ?thesis by simp
next
  case (Finished ms n)
  assume a: "list_all mid ts1" "exit_types x ts2"
  with Finished consider "ms = []" "list_all mid ts2"
    | pre where "ts2 = pre @ [Response_completed]" "list_all mid pre"
    by auto
  then show ?thesis
  proof cases
    case 1
    with a(1) Finished show ?thesis by simp
  next
    case 2
    with a(1) have "exit_types (Finished ms n) (ts1 @ ts2)"
      unfolding exit_types.simps by (intro disjI2 exI [of _ "ts1 @ pre"]) simp
    with Finished show ?thesis by simp
  qed
qed

lemma consume_steps:
  "consume E st xs = (st', x) \<Longrightarrow> \<exists>es. steps st es st' \<and> exit_types x (etypes es)"
proof (induction xs arbitrary: st)
  case Nil
  then have "st' = st" "exit_types x (etypes [])" by auto
  then show ?case using steps_refl [of st] by (intro exI [of _ "[]"]) simp
next
  case (Cons a xs)
  show ?case
  proof (cases a)
    case (Inl m)
    with Cons.prems have "st' = st" "exit_types x (etypes [])" by auto
    then show ?thesis using steps_refl [of st] by (intro exI [of _ "[]"]) simp
  next
    case (Inr c)
    obtain st1 k where h: "handle_chunk E c st = (st1, k)" by (cases "handle_chunk E c st")
    show ?thesis
    proof (cases k)
      case Next
      with h Inr Cons.prems have "consume E st1 xs = (st', x)" by simp
      from Cons.IH [OF this] obtain es2 where es2: "steps st1 es2 st'" "exit_types x (etypes es2)"
        by auto
      from handle_chunk_Next [OF h [unfolded Next]] obtain es1 where
        es1: "steps st es1 st1" "list_all mid (etypes es1)" by auto
      have "steps st (es1 @ es2) st'" by (rule steps_trans [OF es1(1) es2(1)])
      moreover have "exit_types x (etypes (es1 @ es2))"
        using exit_types_prepend [OF es1(2) es2(2)] by simp
      ultimately show ?thesis by (intro exI [of _ "es1 @ es2"]) simp
    next
      case Return
      with h Inr Cons.prems have x: "x = Returned" "st' = st1" by auto
      from handle_chunk_Return [OF h [unfolded Return]] obtain es where
        es: "steps st es st1"
          "map body es = [AgentRunError (response_id st) (error_message c) (Some False)]"
        by auto
      from es(2) have "etypes es = [] @ [Response_error]"
        by (cases es) (auto simp: etypes_def)
      then have "exit_types Returned (etypes es)" unfolding exit_types.simps
        by (intro exI [of _ "[]"]) simp
      with es(1) x show ?thesis by (intro exI [of _ es]) simp
    next
      case (Break ms n)
      with h Inr Cons.prems have x: "x = Finished ms n" "st' = st1" by auto
      from handle_chunk_Break [OF h [unfolded Break]] obtain es where
        es: "steps st es st1" "etypes es =
         (if str_truthy (activeTextItemId st) then [Output_text_completed] else [])
         @ [Response_completed]" by auto
      have "exit_types (Finished ms n) (etypes es)" unfolding exit_types.simps es(2)
        by (intro disjI2 exI [of _ "if str_truthy (activeTextItemId st) then [Output_text_completed] else []"]) simp
      with es(1) x show ?thesis by (intro exI [of _ es]) simp
    qed
  qed
qed

lemma consume_goes_on:
  "\<forall>x\<in>set pre. goes_on x \<Longrightarrow>
     \<exists>st1. consume E st pre = (st1, Finished [] 0) \<and>
           (\<forall>xs. consume E st (pre @ xs) = consume E st1 xs)"
proof (induction pre arbitrary: st)
  case Nil
  then show ?case by simp
next
  case (Cons a pre)
  then obtain c where c: "a = Inr c" "goes_on (Inr c)" by (cases a) auto
  obtain st1 k where h: "handle_chunk E c st = (st1, k)" by (cases "handle_chunk E c st")
  with c(2) handle_chunk_control(1) [of E c st] have k: "k = Next" by simp
  from Cons.prems have "\<forall>x\<in>set pre. goes_on x" by simp
  from Cons.IH [OF this, of st1] obtain st2 where
    "consume E st1 pre = (st2, Finished [] 0)" "\<forall>xs. consume E st1 (pre @ xs) = consume E st2 xs"
    by blast
  with c(1) h k show ?case by simp
qed

lemma steps_new_events: "steps st es st' \<Longrightarrow> new_events st st' = es"
  by (simp add: steps_def new_events_def)

lemma consume_goes_on_mid:
  "\<forall>x\<in>set pre. goes_on x \<Longrightarrow> consume E st pre = (st1, x) \<Longrightarrow>
     \<exists>es. steps st es st1 \<and> list_all mid (etypes es)"
proof (induction pre arbitrary: st)
  case Nil
  then show ?case using steps_refl [of st] by (intro exI [of _ "[]"]) auto
next
  case (Cons a pre)
  then obtain c where c: "a = Inr c" "goes_on (Inr c)" by (cases a) auto
  obtain st2 k where h: "handle_chunk E c st = (st2, k)" by (cases "handle_chunk E c st")
  with c(2) handle_chunk_control(1) [of E c st] have k: "k = Next" by simp
  from handle_chunk_Next [OF h [unfolded k]] obtain es1 where
    es1: "steps st es1 st2" "list_all mid (etypes es1)" by auto
  from Cons.prems c h k have "consume E st2 pre = (st1, x)" by simp
  from Cons.IH [OF _ this] Cons.prems(1) obtain es2 where
    es2: "steps st2 es2 st1" "list_all mid (etypes es2)" by auto
  have "steps st (es1 @ es2) st1" by (rule steps_trans [OF es1(1) es2(1)])
  with es1(2) es2(2) show ?case by (intro exI [of _ "es1 @ es2"]) simp
qed

lemma start_props:
  "\<exists>ev. written (start E chat) = [ev] \<and> sequence ev = 0 \<and>
        body ev = AgentResponseStarted (uuid E 1) (Some [(''agentId'', JStr (agentId chat))])"
  "next_sequence (start E chat) = 1"
  "response_id (start E chat) = uuid E 1"
  by (simp_all add: start_def emitEventInternal_def)

lemma persist_empty:
  "persist E chat [] n st =
     \<lparr> events = written st, ended = True, minted = False, title_prompts = [], put_calls = [] \<rparr>"
  by (simp add: persist_def)

lemma etype_saved_event [simp]: "etype (saved_event E chat n rv st) = Response_saved"
  by (simp add: saved_event_def)

lemma persist_events:
  assumes "ms \<noteq> []"
  shows "\<exists>b. (etype b = Response_error \<or> etype b = Response_saved) \<and>
     events (persist E chat ms n st) = written (emitEventInternal E b st)"
proof (cases "if \<not> str_truthy (title chat) then title_prompt E ms else Inr (the (title chat))")
  case (Inl m)
  then have "events (persist E chat ms n st) =
     written (emitEventInternal E (AgentRunError (response_id st) m (Some False)) st)"
    using assms by (simp add: persist_def caught_def Let_def)
  then show ?thesis by (intro exI [of _ "AgentRunError (response_id st) m (Some False)"]) simp
next
  case t: (Inr t)
  show ?thesis
  proof (cases "db_put E (new_chat E chat ms t)")
    case (Inl m)
    then have "events (persist E chat ms n st) =
       written (emitEventInternal E (AgentRunError (response_id st) m (Some False)) st)"
      using assms t by (simp add: persist_def caught_def Let_def)
    then show ?thesis by (intro exI [of _ "AgentRunError (response_id st) m (Some False)"]) simp
  next
    case (Inr rv)
    then have "events (persist E chat ms n st) =
       written (emitEventInternal E (saved_event E chat n rv st) st)"
      using assms t by (simp add: persist_def caught_def Let_def)
    then show ?thesis by (intro exI [of _ "saved_event E chat n rv st"]) simp
  qed
qed

text \<open>The events of a run: response-started, the loop's events, and at most one closing event.\<close>

lemma mid_ok:
  "list_all mid ts \<Longrightarrow> list_all (\<lambda>t. t \<noteq> Response_started \<and> t \<noteq> Response_saved) ts"
  by (induction ts) (simp_all add: mid_def)

lemma exit_types_ok:
  assumes "exit_types x ts"
  shows "list_all (\<lambda>t. t \<noteq> Response_started \<and> t \<noteq> Response_saved) ts"
proof (cases x)
  case Returned
  with assms obtain pre where "ts = pre @ [Response_error]" "list_all mid pre" by auto
  then show ?thesis using mid_ok [of pre] by simp
next
  case (Thrown m)
  with assms show ?thesis using mid_ok [of ts] by simp
next
  case (Finished ms n)
  with assms consider "list_all mid ts"
    | pre where "ts = pre @ [Response_completed]" "list_all mid pre" by auto
  then show ?thesis
  proof cases
    case 1
    then show ?thesis by (rule mid_ok)
  next
    case 2
    then show ?thesis using mid_ok [of pre] by simp
  qed
qed

lemma run_shape:
  "\<exists>ev es cl. events (agentChatStream E chat stream) = ev # es @ cl \<and>
     sequence ev = 0 \<and> etype (body ev) = Response_started \<and>
     map sequence (es @ cl) = [1 ..< 1 + length (es @ cl)] \<and>
     list_all (\<lambda>t. t \<noteq> Response_started \<and> t \<noteq> Response_saved) (etypes es) \<and>
     closing es cl"
proof -
  obtain ev where ev: "written (start E chat) = [ev]" "sequence ev = 0"
    "etype (body ev) = Response_started"
    using start_props(1) [of E chat] by auto
  obtain st x where c: "consume E (start E chat) stream = (st, x)"
    by (cases "consume E (start E chat) stream")
  from consume_steps [OF c] obtain es where es: "steps (start E chat) es st"
     "exit_types x (etypes es)"
    by auto
  have ok: "list_all (\<lambda>t. t \<noteq> Response_started \<and> t \<noteq> Response_saved) (etypes es)"
    using es(2) by (rule exit_types_ok)
  have w: "written st = ev # es" "next_sequence st = 1 + length es"
    "map sequence es = [1 ..< 1 + length es]"
    using es(1) ev(1) start_props(2) [of E chat] by (simp_all add: steps_def)
  have emit: "\<exists>e. written (emitEventInternal E b st) = ev # es @ [e] \<and> body e = b \<and>
      map sequence (es @ [e]) = [1 ..< 1 + length (es @ [e])]" for b
    using w by (simp add: emitEventInternal_def)
  have fin: ?thesis if "events (agentChatStream E chat stream) = ev # es @ cl"
      "map sequence (es @ cl) = [1 ..< 1 + length (es @ cl)]" "closing es cl" for cl
    using that ev(2,3) ok by (intro exI [of _ ev] exI [of _ es] exI [of _ cl]) simp
  have one: ?thesis if "events (agentChatStream E chat stream) = written (emitEventInternal E b st)"
      "etype b = Response_error \<or> (etype b = Response_saved \<and> Response_completed \<in> set (etypes es))" for b
  proof -
    obtain e where e: "written (emitEventInternal E b st) = ev # es @ [e]" "body e = b"
      "map sequence (es @ [e]) = [1 ..< 1 + length (es @ [e])]"
      using emit [of b] by auto
    have "closing es [e]" using that(2) e(2) by (auto simp: closing_def)
    with that(1) e show ?thesis by (intro fin [of "[e]"]) simp_all
  qed
  show ?thesis
  proof (cases x)
    case Returned
    then have "events (agentChatStream E chat stream) = ev # es @ []"
      using c w by (simp add: agentChatStream_def)
    then show ?thesis using w(3) by (intro fin [of "[]"]) (simp_all add: closing_def)
  next
    case (Thrown m)
    then have "events (agentChatStream E chat stream) =
       written (emitEventInternal E (AgentRunError (response_id st) m (Some False)) st)"
      using c by (simp add: agentChatStream_def caught_def)
    then show ?thesis by (rule one) simp
  next
    case (Finished ms n)
    then have r: "agentChatStream E chat stream = persist E chat ms n st"
      using c by (simp add: agentChatStream_def)
    show ?thesis
    proof (cases "ms = []")
      case True
      then have "events (agentChatStream E chat stream) = ev # es @ []"
        using r w by (simp add: persist_empty)
      then show ?thesis using w(3) by (intro fin [of "[]"]) (simp_all add: closing_def)
    next
      case False
      with es(2) Finished have comp: "Response_completed \<in> set (etypes es)" by auto
      from persist_events [OF False, of E chat n st] obtain b where
        b: "etype b = Response_error \<or> etype b = Response_saved"
           "events (persist E chat ms n st) = written (emitEventInternal E b st)"
        by auto
      show ?thesis
        by (rule one [of b]) (use b comp r in auto)
    qed
  qed
qed

lemma handle_chunk_Error:
  "chunk_type c = Error \<Longrightarrow> handle_chunk E c st = (on_error E c st, Return)"
  by (simp add: handle_chunk_def)

lemma handle_chunk_Done:
  "chunk_type c = Done \<Longrightarrow> handle_chunk E c st =
     (on_done E c st, Break (case chunk_messages c of Some ms \<Rightarrow> ms | None \<Rightarrow> [])
                            (case tokensUsed c of Some n \<Rightarrow> n | None \<Rightarrow> 0))"
  by (simp add: handle_chunk_def)

text \<open>The state of the loop after a prefix of chunks none of which ends it.\<close>

lemma prefix_run:
  assumes "\<forall>x\<in>set pre. goes_on x"
  obtains st1 ev es where
    "consume E (start E chat) pre = (st1, Finished [] 0)"
    "\<And>xs. consume E (start E chat) (pre @ xs) = consume E st1 xs"
    "written st1 = ev # es" "etype (body ev) = Response_started"
    "list_all mid (etypes es)" "response_id st1 = uuid E 1"
proof -
  from consume_goes_on [OF assms, of E "start E chat"] obtain st1 where
    st1: "consume E (start E chat) pre = (st1, Finished [] 0)"
         "\<forall>xs. consume E (start E chat) (pre @ xs) = consume E st1 xs"
    by auto
  from consume_goes_on_mid [OF assms st1(1)] obtain es where
    es: "steps (start E chat) es st1" "list_all mid (etypes es)" by auto
  obtain ev where ev: "written (start E chat) = [ev]" "etype (body ev) = Response_started"
    using start_props(1) [of E chat] by auto
  have "written st1 = ev # es" "response_id st1 = uuid E 1"
    using es(1) ev(1) start_props(3) [of E chat] by (simp_all add: steps_def)
  with st1 es(2) ev(2) that show thesis by blast
qed

lemma mid_set: "list_all mid ts \<Longrightarrow> t \<in> set ts \<Longrightarrow> mid t"
  by (simp add: list_all_iff)

lemma run_prefix_only:
  assumes "consume E (start E chat) pre = (st1, Finished [] 0)"
  shows "agentChatStream E chat pre =
     \<lparr> events = written st1, ended = True, minted = False, title_prompts = [], put_calls = [] \<rparr>"
  using assms by (simp add: agentChatStream_def persist_empty)

lemma on_done_written:
  "\<exists>es e. written (on_done E c st) = written st @ es @ [e] \<and>
     body e = AgentRunCompleted (response_id st) (Some (case tokensUsed c of Some n \<Rightarrow> n | None \<Rightarrow> 0)) \<and>
     etypes es = (if str_truthy (activeTextItemId st) then [Output_text_completed] else []) \<and>
     response_id (on_done E c st) = response_id st"
  by (cases "str_truthy (activeTextItemId st)")
     (simp_all add: on_done_def Let_def emitEventInternal_def)

text \<open>The state of the loop at a done chunk that follows chunks none of which ends it.\<close>

lemma done_run:
  assumes "\<forall>x\<in>set pre. goes_on x" and "chunk_type c = Done"
  obtains st2 es e where
    "agentChatStream E chat (pre @ Inr c # rest) =
       persist E chat (case chunk_messages c of Some ms \<Rightarrow> ms | None \<Rightarrow> [])
         (case tokensUsed c of Some n \<Rightarrow> n | None \<Rightarrow> 0) st2"
    "written st2 = es @ [e]"
    "body e = AgentRunCompleted (uuid E 1) (Some (case tokensUsed c of Some n \<Rightarrow> n | None \<Rightarrow> 0))"
    "Response_saved \<notin> set (etypes es)" "Response_error \<notin> set (etypes es)"
    "response_id st2 = uuid E 1"
proof -
  from prefix_run [OF assms(1), of E chat] obtain st1 ev es1 where p:
    "consume E (start E chat) pre = (st1, Finished [] 0)"
    "\<And>xs. consume E (start E chat) (pre @ xs) = consume E st1 xs"
    "written st1 = ev # es1" "etype (body ev) = Response_started"
    "list_all mid (etypes es1)" "response_id st1 = uuid E 1"
    by blast
  define n where "n = (case tokensUsed c of Some n \<Rightarrow> n | None \<Rightarrow> 0)"
  define ms where "ms = (case chunk_messages c of Some ms \<Rightarrow> ms | None \<Rightarrow> [])"
  have "consume E st1 (Inr c # rest) = (on_done E c st1, Finished ms n)"
    by (simp add: handle_chunk_Done [OF assms(2)] ms_def n_def)
  then have r: "agentChatStream E chat (pre @ Inr c # rest) = persist E chat ms n (on_done E c st1)"
    by (simp add: agentChatStream_def p(2))
  from on_done_written [of E c st1] obtain es2 e where d:
    "written (on_done E c st1) = written st1 @ es2 @ [e]"
    "body e = AgentRunCompleted (response_id st1) (Some n)"
    "etypes es2 = (if str_truthy (activeTextItemId st1) then [Output_text_completed] else [])"
    "response_id (on_done E c st1) = response_id st1"
    unfolding n_def by blast
  have w: "written (on_done E c st1) = (ev # es1 @ es2) @ [e]" using d(1) p(3) by simp
  have ns: "Response_saved \<notin> set (etypes (ev # es1 @ es2))"
    using p(4) mid_set [OF p(5), of Response_saved] d(3) by auto
  have ne: "Response_error \<notin> set (etypes (ev # es1 @ es2))"
    using p(4) mid_set [OF p(5), of Response_error] d(3) by auto
  show thesis
    by (rule that [OF r [unfolded ms_def n_def] w d(2) [unfolded p(6) n_def] ns ne])
       (simp add: d(4) p(6))
qed

lemma last_emit:
  "body (last (written (emitEventInternal E b st))) = b"
  by (simp add: emitEventInternal_def)

section \<open>Properties of the reconciliation engine\<close>

lemma started_new:
  assumes "map_of (responseStates st) rid = None"
  shows "handle (AgentResponseStarted rid md) st =
     st\<lparr> responseStates := AList.update rid
            \<lparr> responseId = rid, messageIndex = length (messages st), segments = [] \<rparr>
            (responseStates st),
         messageResponseMap := AList.update (length (messages st)) rid (messageResponseMap st),
         responseStatesVersion := responseStatesVersion st + 1,
         activeResponseId := Some rid,
         messages := messages st @ [\<lparr> msg_role = Assistant, msg_content = ContentString [],
                                 tool_calls = None, tool_call_id = None \<rparr>] \<rparr>"
  using assms by (simp add: getOrCreateResponseState_def pushAssistantMessage_def Let_def)

lemma appendSegment_new:
  assumes "map_of (responseStates st) rid = None"
  shows "appendSegment rid seg st =
     st\<lparr> responseStates := AList.update rid
            \<lparr> responseId = rid, messageIndex = length (messages st), segments = [seg] \<rparr>
            (responseStates st),
         itemToResponse := AList.update (seg_id seg) (rid, 0) (itemToResponse st),
         messageResponseMap := AList.update (length (messages st)) rid (messageResponseMap st),
         responseStatesVersion := responseStatesVersion st + 2,
         messages := messages st @ [\<lparr> msg_role = Assistant,
             msg_content = ContentString (trim (join ''\<newline>\<newline>'' (segment_part seg))),
             tool_calls = None, tool_call_id = None \<rparr>] \<rparr>"
  using assms
  by (simp add: appendSegment_def getOrCreateResponseState_def pushAssistantMessage_def Let_def
      reindexResponseSegments_def refreshAssistantMessageContent_def update_conv')


lemma getAssistantSegments_cong:
  "responseStates a = responseStates b \<Longrightarrow> messageResponseMap a = messageResponseMap b \<Longrightarrow>
   getAssistantSegments a m i = getAssistantSegments b m i"
  by (simp add: getAssistantSegments_def state_at_def split: option.splits)

lemma created_after_started:
  assumes "rid \<noteq> []" and "map_of (responseStates st) rid = None"
  shows "handle (AgentOutputItemCreated rid item) (handle (AgentResponseStarted rid md) st) =
         (handle (AgentOutputItemCreated rid item) st)\<lparr> activeResponseId := Some rid \<rparr>"
proof -
  have t: "target_response rid s = Some rid" for s
    using assms(1) by (simp add: target_response_def)
  have "appendSegment rid seg (handle (AgentResponseStarted rid md) st) =
        (appendSegment rid seg st)\<lparr> activeResponseId := Some rid \<rparr>" for seg
    unfolding started_new [OF assms(2)] appendSegment_new [OF assms(2)]
    by (simp add: appendSegment_def getOrCreateResponseState_def Let_def
        reindexResponseSegments_def refreshAssistantMessageContent_def update_conv')
  then show ?thesis by (simp add: t del: handle.simps(1))
qed

lemma reindex_frame [simp]:
  "responseStates (reindexResponseSegments r st) = responseStates st"
  "messageResponseMap (reindexResponseSegments r st) = messageResponseMap st"
  "messages (reindexResponseSegments r st) = messages st"
  by (simp_all add: reindexResponseSegments_def split: option.splits)

lemma refresh_frame [simp]:
  "responseStates (refreshAssistantMessageContent r st) = responseStates st"
  "itemToResponse (refreshAssistantMessageContent r st) = itemToResponse st"
  by (simp_all add: refreshAssistantMessageContent_def Let_def split: option.splits)

lemma refresh_map:
  "map_of (messageResponseMap st) (messageIndex state) = Some r \<Longrightarrow>
   map_of (responseStates st) r = Some state \<Longrightarrow>
   map_of (messageResponseMap (refreshAssistantMessageContent r st)) (messageIndex state) = Some r"
  by (simp add: refreshAssistantMessageContent_def Let_def update_conv')

lemma clear_frame [simp]:
  "responseStates (clearComponentLoading c st) = responseStates st"
  "itemToResponse (clearComponentLoading c st) = itemToResponse st"
  "messageResponseMap (clearComponentLoading c st) = messageResponseMap st"
  "messages (clearComponentLoading c st) = messages st"
  by (simp_all add: clearComponentLoading_def setComponentLoading_def)

lemma locate_frame [simp]:
  "responseStates (snd (locateSegment i st)) = responseStates st"
  "messageResponseMap (snd (locateSegment i st)) = messageResponseMap st"
  "messages (snd (locateSegment i st)) = messages st"
  by (simp_all add: locateSegment_def split: option.splits)

lemma replaceSegment_states:
  assumes "map_of (responseStates st) rid = Some state"
  shows "responseStates (replaceSegment rid idx seg st) =
     AList.update rid (state\<lparr> segments := (segments state)[idx := seg] \<rparr>) (responseStates st)"
  using assms by (simp add: replaceSegment_def Let_def)

lemma replaceSegment_map:
  assumes "map_of (responseStates st) rid = Some state"
    and "map_of (messageResponseMap st) (messageIndex state) = Some rid"
  shows "map_of (messageResponseMap (replaceSegment rid idx seg st)) (messageIndex state) = Some rid"
  using assms
  by (simp add: replaceSegment_def Let_def refreshAssistantMessageContent_def update_conv')

text \<open>A patch that replaces the item puts the replacement where the item was.\<close>

lemma updated_replace:
  assumes "fst (locateSegment i st) = Some (rid, idx)"
    and "map_of (responseStates st) rid = Some state"
    and "idx < length (segments state)"
    and "replaceWith p = Some item"
  shows "responseStates (on_item_updated i p st) =
     AList.update rid (state\<lparr> segments := (segments state)[idx := segment_of_item item] \<rparr>)
       (responseStates st)"
    and "map_of (messageResponseMap st) (messageIndex state) = Some rid \<Longrightarrow>
      map_of (messageResponseMap (on_item_updated i p st)) (messageIndex state) = Some rid"
proof -
  obtain st1 where l: "locateSegment i st = (Some (rid, idx), st1)"
    using assms(1) by (cases "locateSegment i st") simp
  then have f: "responseStates st1 = responseStates st" "messageResponseMap st1 = messageResponseMap st"
    using locate_frame(1,2) [of i st] by simp_all
  have s1: "map_of (responseStates st1) rid = Some state" using assms(2) f by simp
  have eq: "on_item_updated i p st =
      clearComponentLoading i
        ((replaceSegment rid idx (segment_of_item item) st1)
           \<lparr> itemToResponse := AList.delete i
               (itemToResponse (replaceSegment rid idx (segment_of_item item) st1)) \<rparr>)"
    using l s1 assms(3,4) by (simp add: on_item_updated_def Let_def)
  show "responseStates (on_item_updated i p st) =
     AList.update rid (state\<lparr> segments := (segments state)[idx := segment_of_item item] \<rparr>)
       (responseStates st)"
    unfolding eq using replaceSegment_states [OF s1] f by simp
  show "map_of (messageResponseMap (on_item_updated i p st)) (messageIndex state) = Some rid"
    if "map_of (messageResponseMap st) (messageIndex state) = Some rid"
    unfolding eq using replaceSegment_map [OF s1] that f by simp
qed

text \<open>A patch that hides the item without replacing it removes its segment.\<close>

lemma updated_hidden:
  assumes "fst (locateSegment i st) = Some (rid, idx)"
    and "map_of (responseStates st) rid = Some state"
    and "idx < length (segments state)"
    and "patch_state p = Some Hidden" and "replaceWith p = None"
  shows "responseStates (on_item_updated i p st) =
     AList.update rid (state\<lparr> segments := take idx (segments state) @ drop (Suc idx) (segments state) \<rparr>)
       (responseStates st)"
    and "itemToResponse (on_item_updated i p st) =
       foldl (\<lambda>m (segment, index). AList.update (seg_id segment) (rid, index) m)
         (AList.delete i (itemToResponse (snd (locateSegment i st))))
         (zip (take idx (segments state) @ drop (Suc idx) (segments state))
              [0 ..< length (take idx (segments state) @ drop (Suc idx) (segments state))])"
    and "map_of (messageResponseMap st) (messageIndex state) = Some rid \<Longrightarrow>
      map_of (messageResponseMap (on_item_updated i p st)) (messageIndex state) = Some rid"
proof -
  obtain st1 where l: "locateSegment i st = (Some (rid, idx), st1)"
    using assms(1) by (cases "locateSegment i st") simp
  then have f: "responseStates st1 = responseStates st" "messageResponseMap st1 = messageResponseMap st"
    using locate_frame(1,2) [of i st] by simp_all
  have s1: "map_of (responseStates st1) rid = Some state" using assms(2) f by simp
  define segs where "segs = take idx (segments state) @ drop (Suc idx) (segments state)"
  define st2 where "st2 = st1\<lparr> responseStates :=
      AList.update rid (state\<lparr> segments := segs \<rparr>) (responseStates st1) \<rparr>"
  define st3 where "st3 = st2\<lparr> itemToResponse := AList.delete i (itemToResponse st2) \<rparr>"
  define st4 where "st4 = reindexResponseSegments rid st3"
  define st5 where "st5 = st4\<lparr> responseStatesVersion := responseStatesVersion st4 + 1 \<rparr>"
  define st6 where "st6 = refreshAssistantMessageContent rid st5"
  have eq: "on_item_updated i p st =
      (if is_component (segments state ! idx)
       then clearComponentLoading (seg_id (segments state ! idx)) st6 else st6)"
    using l s1 assms(3,4,5)
    by (simp add: on_item_updated_def Let_def st6_def st5_def st4_def st3_def st2_def segs_def)
  have rs: "responseStates st6 = AList.update rid (state\<lparr> segments := segs \<rparr>) (responseStates st)"
    by (simp add: st6_def st5_def st4_def st3_def st2_def f)
  show "responseStates (on_item_updated i p st) =
     AList.update rid (state\<lparr> segments := take idx (segments state) @ drop (Suc idx) (segments state) \<rparr>)
       (responseStates st)"
    unfolding eq segs_def [symmetric] using rs by simp
  have "map_of (responseStates st3) rid = Some (state\<lparr> segments := segs \<rparr>)"
    by (simp add: st3_def st2_def update_conv')
  then have "itemToResponse st4 =
       foldl (\<lambda>m (segment, index). AList.update (seg_id segment) (rid, index) m)
         (AList.delete i (itemToResponse st1)) (zip segs [0 ..< length segs])"
    by (simp add: st4_def reindexResponseSegments_def st3_def st2_def)
  then show "itemToResponse (on_item_updated i p st) =
       foldl (\<lambda>m (segment, index). AList.update (seg_id segment) (rid, index) m)
         (AList.delete i (itemToResponse (snd (locateSegment i st))))
         (zip (take idx (segments state) @ drop (Suc idx) (segments state))
              [0 ..< length (take idx (segments state) @ drop (Suc idx) (segments state))])"
    unfolding eq segs_def [symmetric] using l by (simp add: st6_def st5_def)
  show "map_of (messageResponseMap (on_item_updated i p st)) (messageIndex state) = Some rid"
    if "map_of (messageResponseMap st) (messageIndex state) = Some rid"
  proof -
    have a: "map_of (messageResponseMap st5) (messageIndex (state\<lparr> segments := segs \<rparr>)) = Some rid"
      using that by (simp add: st5_def st4_def st3_def st2_def f)
    have b: "map_of (responseStates st5) rid = Some (state\<lparr> segments := segs \<rparr>)"
      by (simp add: st5_def st4_def st3_def st2_def update_conv')
    have "map_of (messageResponseMap st6) (messageIndex (state\<lparr> segments := segs \<rparr>)) = Some rid"
      unfolding st6_def by (rule refresh_map [OF a b])
    then show ?thesis unfolding eq by simp
  qed
qed

lemma reindex_fold_None:
  "map_of (foldl (\<lambda>m (s, j). AList.update (seg_id s) (rid, j) m) m0 xs) k = None \<longleftrightarrow>
     map_of m0 k = None \<and> k \<notin> seg_id ` fst ` set xs"
  by (induction xs arbitrary: m0) (auto simp: update_conv' split: prod.splits)

lemma findIndex_None: "findIndex P xs = None \<longleftrightarrow> (\<forall>x\<in>set xs. \<not> P x)"
  by (induction xs) auto

lemma locate_in_None:
  "locate_in i rs = None \<longleftrightarrow> (\<forall>(k, s)\<in>set rs. i \<notin> seg_id ` set (segments s))"
  by (induction rs) (auto simp: findIndex_None split: option.splits)

lemma set_update_distinct:
  "distinct (map fst al) \<Longrightarrow> (k', v') \<in> set (AList.update k v al) \<Longrightarrow>
     (k' = k \<and> v' = v) \<or> (k' \<noteq> k \<and> (k', v') \<in> set al)"
  by (induction al) (force split: if_splits)+

lemma distinct_remove_nth:
  assumes "distinct (map f xs)" and "idx < length xs"
  shows "f (xs ! idx) \<notin> f ` set (take idx xs @ drop (Suc idx) xs)"
proof -
  have "xs = take idx xs @ xs ! idx # drop (Suc idx) xs"
    using assms(2) by (simp add: id_take_nth_drop)
  then have "distinct (map f (take idx xs @ xs ! idx # drop (Suc idx) xs))"
    using assms(1) by simp
  then show ?thesis by auto
qed

lemma state_at_eq:
  "map_of (messageResponseMap st) k = Some rid \<Longrightarrow> rid \<noteq> [] \<Longrightarrow>
   map_of (responseStates st) rid = Some state \<Longrightarrow> state_at st k = Some state"
  by (simp add: state_at_def)

lemma distinct_update_nth:
  assumes "distinct (map f xs)" and "idx < length xs" and "f y \<noteq> f (xs ! idx)"
  shows "f (xs ! idx) \<notin> f ` set (xs[idx := y])"
proof -
  have "xs[idx := y] = take idx xs @ y # drop (Suc idx) xs"
    using assms(2) by (simp add: upd_conv_take_nth_drop)
  then have "f ` set (xs[idx := y]) = insert (f y) (f ` set (take idx xs @ drop (Suc idx) xs))"
    by auto
  then show ?thesis using distinct_remove_nth [OF assms(1,2)] assms(3) by auto
qed

lemma blank_fresh: "blank (fresh ms)"
  by (simp add: blank_def fresh_def)

lemma blank_render: "blank st \<Longrightarrow> getAssistantSegments st m i = own_text m i"
  by (simp add: blank_def getAssistantSegments_def state_at_def)

lemma blank_updateTextSegment: "blank st \<Longrightarrow> updateTextSegment i f st = st"
  by (simp add: blank_def updateTextSegment_def)

lemma blank_on_item_updated: "blank st \<Longrightarrow> on_item_updated i p st = st"
  by (simp add: blank_def on_item_updated_def locateSegment_def)

lemma tool_frame [simp]:
  "responseStates (on_tool_started c a st) = responseStates st"
  "itemToResponse (on_tool_started c a st) = itemToResponse st"
  "messageResponseMap (on_tool_started c a st) = messageResponseMap st"
  "responseStates (on_tool_completed c s e st) = responseStates st"
  "itemToResponse (on_tool_completed c s e st) = itemToResponse st"
  "messageResponseMap (on_tool_completed c s e st) = messageResponseMap st"
  by (simp_all add: on_tool_started_def on_tool_completed_def Let_def
      setComponentLoading_def clearComponentLoading_def)

text \<open>Events other than response-started and output-item-created leave a blank engine blank.\<close>

lemma blank_handle:
  assumes "blank st" and "etype b \<noteq> Output_item_created" and "etype b \<noteq> Response_started"
  shows "blank (handle b st)"
proof (cases b)
  case (AgentOutputTextDelta r i d)
  then show ?thesis using assms(1) blank_updateTextSegment [OF assms(1)]
    by (simp split: option.splits)
next
  case (AgentOutputTextCompleted r i t)
  then show ?thesis using assms(1) blank_updateTextSegment [OF assms(1)] by simp
next
  case (AgentOutputItemUpdated r i p)
  then show ?thesis using assms(1) blank_on_item_updated [OF assms(1)] by simp
next
  case (AgentToolCallStarted r c n a)
  then show ?thesis using assms(1) by (simp add: blank_def)
next
  case (AgentToolCallCompleted r c s v e)
  then show ?thesis using assms(1) by (simp add: blank_def)
next
  case (AgentRunCompleted r n)
  then show ?thesis using assms(1) by (simp add: blank_def)
next
  case (AgentRunError r m x)
  then show ?thesis using assms(1) by (simp add: blank_def Let_def)
next
  case (AgentRunSaved r c v m)
  then show ?thesis using assms(1) by (simp add: blank_def)
qed (use assms in simp_all)

lemma started_twice:
  assumes "map_of (responseStates st) rid = None"
  shows "handle (AgentResponseStarted rid md) (handle (AgentResponseStarted rid md) st) =
         handle (AgentResponseStarted rid md) st"
  unfolding started_new [OF assms]
  by (simp add: getOrCreateResponseState_def update_conv')

lemma appendSegment_existing:
  assumes "map_of (responseStates st) rid = Some state"
  shows "responseStates (appendSegment rid seg st) =
     AList.update rid (state\<lparr> segments := segments state @ [seg] \<rparr>) (responseStates st)"
  using assms by (simp add: appendSegment_def getOrCreateResponseState_def Let_def)

text \<open>What the handlers leave alone.\<close>

lemma reindex_frame2 [simp]:
  "activeResponseId (reindexResponseSegments r st) = activeResponseId st"
  "lastHydratedKey (reindexResponseSegments r st) = lastHydratedKey st"
  "saved_rev (reindexResponseSegments r st) = saved_rev st"
  by (simp_all add: reindexResponseSegments_def split: option.splits)

lemma refresh_frame2 [simp]:
  "activeResponseId (refreshAssistantMessageContent r st) = activeResponseId st"
  "lastHydratedKey (refreshAssistantMessageContent r st) = lastHydratedKey st"
  "saved_rev (refreshAssistantMessageContent r st) = saved_rev st"
  "length (messages (refreshAssistantMessageContent r st)) = length (messages st)"
  by (simp_all add: refreshAssistantMessageContent_def Let_def split: option.splits)

lemma clear_frame2 [simp]:
  "activeResponseId (clearComponentLoading c st) = activeResponseId st"
  "lastHydratedKey (clearComponentLoading c st) = lastHydratedKey st"
  "saved_rev (clearComponentLoading c st) = saved_rev st"
  by (simp_all add: clearComponentLoading_def setComponentLoading_def)

lemma locate_frame2 [simp]:
  "activeResponseId (snd (locateSegment i st)) = activeResponseId st"
  "lastHydratedKey (snd (locateSegment i st)) = lastHydratedKey st"
  "saved_rev (snd (locateSegment i st)) = saved_rev st"
  by (simp_all add: locateSegment_def split: option.splits)

lemma replaceSegment_frame [simp]:
  "activeResponseId (replaceSegment r idx seg st) = activeResponseId st"
  "lastHydratedKey (replaceSegment r idx seg st) = lastHydratedKey st"
  "saved_rev (replaceSegment r idx seg st) = saved_rev st"
  "length (messages (replaceSegment r idx seg st)) = length (messages st)"
  by (simp_all add: replaceSegment_def Let_def split: option.splits)

lemma updateTextSegment_frame [simp]:
  "activeResponseId (updateTextSegment i f st) = activeResponseId st"
  "lastHydratedKey (updateTextSegment i f st) = lastHydratedKey st"
  "saved_rev (updateTextSegment i f st) = saved_rev st"
  "length (messages (updateTextSegment i f st)) = length (messages st)"
  by (simp_all add: updateTextSegment_def split: option.splits segment.splits)

lemma tool_frame2 [simp]:
  "activeResponseId (on_tool_started c a st) = activeResponseId st"
  "lastHydratedKey (on_tool_started c a st) = lastHydratedKey st"
  "saved_rev (on_tool_started c a st) = saved_rev st"
  "messages (on_tool_started c a st) = messages st"
  "activeResponseId (on_tool_completed c s e st) = activeResponseId st"
  "lastHydratedKey (on_tool_completed c s e st) = lastHydratedKey st"
  "saved_rev (on_tool_completed c s e st) = saved_rev st"
  "messages (on_tool_completed c s e st) = messages st"
  by (simp_all add: on_tool_started_def on_tool_completed_def Let_def
      setComponentLoading_def clearComponentLoading_def)

lemma on_item_updated_active [simp]:
  "activeResponseId (on_item_updated i p st) = activeResponseId st"
proof -
  obtain l st1 where l: "locateSegment i st = (l, st1)" by (cases "locateSegment i st")
  then have a: "activeResponseId st1 = activeResponseId st"
    using locate_frame2(1) [of i st] by simp
  show ?thesis
    unfolding on_item_updated_def l using a
    by (simp add: Let_def split: option.splits segment.splits prod.splits)
qed

section \<open>Properties of rehydration\<close>

lemma undecimal_decimal: "undecimal (decimal n) = n"
proof (induction n rule: decimal.induct)
  case (1 n)
  show ?case
  proof (cases "n < 10")
    case True
    then show ?thesis
      by (subst decimal.simps) (simp add: undecimal_def digit_def)
  next
    case False
    have d: "of_char (digit (n mod 10)) = n mod 10 + 48"
      by (simp add: digit_def)
    have "undecimal (decimal n) = 10 * undecimal (decimal (n div 10)) + (of_char (digit (n mod 10)) - 48)"
      using False by (subst decimal.simps) (simp add: undecimal_def)
    also have "\<dots> = 10 * (n div 10) + n mod 10"
      by (simp only: 1 [OF False] d add_diff_cancel_right')
    also have "\<dots> = n" by (rule mult_div_mod_eq)
    finally show ?thesis .
  qed
qed

lemma decimal_inj: "decimal a = decimal b \<Longrightarrow> a = b"
proof -
  assume "decimal a = decimal b"
  then have "undecimal (decimal a) = undecimal (decimal b)" by (rule arg_cong)
  then show "a = b" by (simp only: undecimal_decimal)
qed

text \<open>A round of the rehydration loop for another message leaves the entries of message \<open>k\<close>.\<close>

lemma hydrate_other:
  assumes "index \<noteq> k"
  shows "map_of (messageResponseMap (hydrate tr st (m, index))) k = map_of (messageResponseMap st) k"
    and "map_of (responseStates (hydrate tr st (m, index))) (''history-'' @ decimal k) =
         map_of (responseStates st) (''history-'' @ decimal k)"
  using assms decimal_inj [of index k] decimal_inj [of k index]
  by (auto simp: hydrate_def Let_def update_conv')

lemma hydrate_fold_keep:
  assumes "\<forall>(m, index)\<in>set xs. index \<noteq> k"
  shows "map_of (messageResponseMap (foldl (hydrate tr) st xs)) k = map_of (messageResponseMap st) k \<and>
         map_of (responseStates (foldl (hydrate tr) st xs)) (''history-'' @ decimal k) =
         map_of (responseStates st) (''history-'' @ decimal k)"
  using assms
proof (induction xs arbitrary: st)
  case Nil
  then show ?case by simp
next
  case (Cons x xs)
  obtain m index where x: "x = (m, index)" by (cases x)
  with Cons.prems have ne: "index \<noteq> k" and rest: "\<forall>(m, index)\<in>set xs. index \<noteq> k" by auto
  show ?case
    using Cons.IH [OF rest, of "hydrate tr st (m, index)"] hydrate_other [OF ne, of tr st m]
    by (simp add: x)
qed

lemma hydrate_at:
  assumes "rehydrate_message tr k m \<noteq> []"
  shows "map_of (messageResponseMap (hydrate tr st (m, k))) k = Some (''history-'' @ decimal k)"
    and "map_of (responseStates (hydrate tr st (m, k))) (''history-'' @ decimal k) =
         Some \<lparr> responseId = ''history-'' @ decimal k, messageIndex = k,
                segments = rehydrate_message tr k m \<rparr>"
  using assms by (simp_all add: hydrate_def Let_def update_conv')

lemma zip_upt_split:
  assumes "k < length ms"
  shows "zip ms [0 ..< length ms] =
     zip (take k ms) [0 ..< k] @ (ms ! k, k) # zip (drop (Suc k) ms) [Suc k ..< length ms]"
proof -
  have "ms = take k ms @ ms ! k # drop (Suc k) ms"
    using assms by (simp add: id_take_nth_drop)
  moreover have "[0 ..< length ms] = [0 ..< k] @ k # [Suc k ..< length ms]"
  proof -
    have "[0 ..< k + (length ms - k)] = [0 ..< k] @ [k ..< k + (length ms - k)]"
      by (rule upt_add_eq_append) simp
    moreover have "[k ..< length ms] = k # [Suc k ..< length ms]"
      using assms by (rule upt_conv_Cons)
    ultimately show ?thesis using assms by simp
  qed
  ultimately have "zip ms [0 ..< length ms] =
      zip (take k ms @ ms ! k # drop (Suc k) ms) ([0 ..< k] @ k # [Suc k ..< length ms])"
    by simp
  also have "\<dots> = zip (take k ms) [0 ..< k] @ zip (ms ! k # drop (Suc k) ms) (k # [Suc k ..< length ms])"
    using assms by (intro zip_append) simp
  finally show ?thesis by simp
qed

text \<open>After rehydration, the message at index \<open>k\<close> is backed by the segments scanned from it.\<close>

lemma rehydrate_state_at:
  assumes "k < length (messages st)"
    and "rehydrate_message (foldl (tool_result_of parse) [] (messages st)) k (messages st ! k) \<noteq> []"
  shows "state_at (rehydrateFromChatHistory parse st) k =
     Some \<lparr> responseId = ''history-'' @ decimal k, messageIndex = k,
            segments = rehydrate_message (foldl (tool_result_of parse) [] (messages st)) k
                         (messages st ! k) \<rparr>"
proof -
  define tr where "tr = foldl (tool_result_of parse) [] (messages st)"
  define st0 where "st0 = st\<lparr> responseStates := [], itemToResponse := [],
                          messageResponseMap := [], componentLoading := {} \<rparr>"
  define xs1 where "xs1 = zip (take k (messages st)) [0 ..< k]"
  define xs2 where "xs2 = zip (drop (Suc k) (messages st)) [Suc k ..< length (messages st)]"
  define st1 where "st1 = foldl (hydrate tr) st0 xs1"
  define st2 where "st2 = hydrate tr st1 (messages st ! k, k)"
  define st3 where "st3 = foldl (hydrate tr) st2 xs2"
  have ne: "messages st \<noteq> []" using assms(1) by auto
  have "foldl (hydrate tr) st0 (zip (messages st) [0 ..< length (messages st)]) = st3"
    unfolding zip_upt_split [OF assms(1)] by (simp add: st3_def st2_def st1_def xs1_def xs2_def)
  then have r: "rehydrateFromChatHistory parse st =
      st3\<lparr> responseStatesVersion := responseStatesVersion st3 + 1 \<rparr>"
    using ne by (simp add: rehydrateFromChatHistory_def Let_def tr_def st0_def)
  have k2: "\<forall>(m, index)\<in>set xs2. index \<noteq> k"
    by (auto simp: xs2_def dest!: set_zip_rightD)
  note a = hydrate_at [OF assms(2) [folded tr_def], of st1, folded st2_def]
  note b = hydrate_fold_keep [OF k2, of tr st2, folded st3_def]
  have "map_of (messageResponseMap st3) k = Some (''history-'' @ decimal k)"
    using a(1) b by simp
  moreover have "map_of (responseStates st3) (''history-'' @ decimal k) =
         Some \<lparr> responseId = ''history-'' @ decimal k, messageIndex = k,
                segments = rehydrate_message tr k (messages st ! k) \<rparr>"
    using a(2) b by simp
  ultimately show ?thesis
    unfolding r tr_def [symmetric] by (simp add: state_at_def)
qed

text \<open>A content without placeholder is one text segment, its trimmed text.\<close>

lemma rehydrate_plain_text:
  assumes "msg_role m = Assistant" and "msg_content m = ContentString t"
    and "find_placeholder t = None" and "trim t \<noteq> []"
  shows "rehydrate_message tr k m = [AssistantTextSegment (history_text_id k 0) (trim t)]"
proof -
  have "t \<noteq> []" using assms(4) by (auto simp: trim_def)
  moreover have "scan tr k t [] = push_text k t []"
    using assms(3) by (subst scan.simps) simp
  ultimately show ?thesis
    using assms(1,2,4) by (simp add: rehydrate_message_def push_text_def)
qed

text \<open>The annotation step changes only assistant messages that carry tool calls.\<close>

lemma debug_message_id:
  "msg_role m \<noteq> Assistant \<or> tool_calls m = None \<or> tool_calls m = Some [] \<Longrightarrow>
   debug_message E m = m"
  by (auto simp: debug_message_def split: option.splits)

lemma debug_message_annotated:
  assumes "msg_role m = Assistant" and "tool_calls m = Some tcs" and "tcs \<noteq> []"
    and "msg_content m = ContentString s"
  shows "msg_content (debug_message E m) = ContentString (s @ toolDebugInfo E tcs)"
    and "toolDebugInfo E tcs \<noteq> []"
  using assms by (simp_all add: debug_message_def toolDebugInfo_def)

section \<open>Emitter and engine together\<close>

text \<open>The last event of a successful result that carries a removal directive with a message.\<close>

lemma removal_event:
  assumes "\<not> str_truthy (tr_error tr)" and "parse_result E (tr_result tr) = Structured obj"
    and "truthy (js_prop obj ''removeComponentMessage'')"
    and "as_string (js_prop obj ''componentId'') = Some c" and "c \<noteq> []"
    and "as_string (js_prop obj ''message'') = Some msg" and "msg \<noteq> []"
  shows "\<exists>e u pre. new_events st (on_tool_call_result E tr st) = pre @ [e] \<and>
     Output_item_updated \<notin> set (etypes pre) \<and>
     body e = AgentOutputItemUpdated (response_id st) c
       \<lparr> patch_state = Some Hidden,
         patch_metadata = Some [(''reason'', JStr ''submitted''),
                                (''sourceToolCallId'', JStr (tr_id tr))],
         replaceWith = Some (TextItem (c @ ''-result-'' @ u) ''assistant'' msg
                               (Some [(''sourceToolCallId'', JStr (tr_id tr))])) \<rparr>"
proof -
  define b where "b = AgentToolCallCompleted (response_id st) (tr_id tr) Success
      (Some (Structured obj)) None"
  define st1 where "st1 = emitEventInternal E b st"
  define st2 where "st2 = message_directive E (tr_id tr) obj st1"
  define st3 where "st3 = component_directive E (tr_id tr) obj st2"
  have eq: "on_tool_call_result E tr st = remove_directive E (tr_id tr) obj st3"
    using assms(1,2) by (simp add: on_tool_call_result_def Let_def st3_def st2_def st1_def b_def)
  obtain es1 where es1: "steps st es1 st1" "etypes es1 = [Tool_call_completed]"
    unfolding st1_def using steps_emit_types [of st E b] by (auto simp: b_def)
  obtain es2 where es2: "steps st1 es2 st2" "etypes es2 =
         (if str_truthy (as_string (js_prop obj ''message''))
          then [Output_item_created, Output_text_completed] else [])"
    unfolding st2_def using steps_message_directive [of st1 E "tr_id tr" obj] by auto
  obtain es3 where es3: "steps st2 es3 st3" "etypes es3 =
         (if is_object (js_prop obj ''component'') then [Output_item_created] else [])"
    unfolding st3_def using steps_component_directive [of st2 E "tr_id tr" obj] by auto
  have s3: "steps st (es1 @ es2 @ es3) st3"
    by (rule steps_trans [OF es1(1) steps_trans [OF es2(1) es3(1)]])
  have nu: "Output_item_updated \<notin> set (etypes (es1 @ es2 @ es3))"
    using es1(2) es2(2) es3(2) by simp
  define u where "u = uuid E (uuids st3)"
  define st4 where "st4 = st3\<lparr> uuids := uuids st3 + 1 \<rparr>"
  define p where "p = \<lparr> patch_state = Some Hidden,
         patch_metadata = Some [(''reason'', JStr ''submitted''),
                                (''sourceToolCallId'', JStr (tr_id tr))],
         replaceWith = Some (TextItem (c @ ''-result-'' @ u) ''assistant'' msg
                               (Some [(''sourceToolCallId'', JStr (tr_id tr))])) \<rparr>"
  have rp: "removal_patch E (tr_id tr) obj c st3 = (p, st4)"
    using assms(6,7)
    by (simp add: removal_patch_def Let_def randomUUID_def str_truthy_def p_def u_def st4_def)
  have rd: "remove_directive E (tr_id tr) obj st3 =
      emitEventInternal E (AgentOutputItemUpdated (response_id st4) c p) st4"
    using assms(3,4,5) rp by (simp add: remove_directive_def)
  have s4: "steps st3 [] st4" by (simp add: steps_def st4_def)
  obtain e where e: "steps st4 [e] (emitEventInternal E (AgentOutputItemUpdated (response_id st4) c p) st4)"
    "body e = AgentOutputItemUpdated (response_id st4) c p"
    using steps_emit [of st4 E "AgentOutputItemUpdated (response_id st4) c p"] by auto
  have "steps st ((es1 @ es2 @ es3) @ [] @ [e]) (on_tool_call_result E tr st)"
    unfolding eq rd by (rule steps_trans [OF s3 steps_trans [OF s4 e(1)]])
  then have ne: "new_events st (on_tool_call_result E tr st) = (es1 @ es2 @ es3) @ [e]"
    using steps_new_events by fastforce
  have "response_id st4 = response_id st" using s3 by (simp add: st4_def steps_def)
  with e(2) have "body e = AgentOutputItemUpdated (response_id st) c p" by simp
  with ne nu show ?thesis unfolding p_def by blast
qed


section \<open>Properties of the reactive block\<close>

text \<open>While a response is active the reactive block leaves the engine alone.\<close>

lemma react_active: "str_truthy (activeResponseId st) \<Longrightarrow> react parse st = st"
  by (simp add: react_def)

lemma arrive_active:
  "str_truthy (activeResponseId (apply_event e st)) \<Longrightarrow> arrive parse st (e, f) = apply_event e st"
  by (simp add: arrive_def react_active)

text \<open>The key ends with the number of messages: chats of different lengths have different keys.\<close>

lemma digit_not_colon: "d < 10 \<Longrightarrow> digit d \<noteq> CHR '':''"
proof
  assume d: "d < 10" and "digit d = CHR '':''"
  then have "of_char (char_of (d + 48)) = (of_char (CHR '':'') :: nat)"
    by (simp add: digit_def)
  then show False using d by simp
qed

lemma decimal_no_colon: "CHR '':'' \<notin> set (decimal n)"
proof (induction n rule: decimal.induct)
  case (1 n)
  show ?case
  proof (cases "n < 10")
    case True
    then show ?thesis using digit_not_colon [of n] by (subst decimal.simps) auto
  next
    case False
    have "n mod 10 < 10" by simp
    from digit_not_colon [OF this] 1 [OF False] False show ?thesis
      by (subst decimal.simps) auto
  qed
qed

lemma key_suffix:
  assumes "r1 @ '':'' @ decimal a = r2 @ '':'' @ decimal b"
  shows "a = b"
proof -
  have t: "takeWhile (\<lambda>c. c \<noteq> CHR '':'') (rev (r @ '':'' @ decimal n)) = rev (decimal n)" for r n
  proof -
    have e: "rev (r @ '':'' @ decimal n) = rev (decimal n) @ CHR '':'' # rev r" by simp
    have "takeWhile (\<lambda>c. c \<noteq> CHR '':'') (rev (decimal n) @ CHR '':'' # rev r) =
        rev (decimal n) @ takeWhile (\<lambda>c. c \<noteq> CHR '':'') (CHR '':'' # rev r)"
      using decimal_no_colon [of n] by (intro takeWhile_append2) auto
    then show ?thesis unfolding e by simp
  qed
  from assms have "takeWhile (\<lambda>c. c \<noteq> CHR '':'') (rev (r1 @ '':'' @ decimal a)) =
      takeWhile (\<lambda>c. c \<noteq> CHR '':'') (rev (r2 @ '':'' @ decimal b))" by simp
  then have "rev (decimal a) = rev (decimal b)" unfolding t .
  then show ?thesis using decimal_inj by simp
qed

lemma hydration_key_length:
  "hydration_key a = hydration_key b \<Longrightarrow> length (messages a) = length (messages b)"
  unfolding hydration_key_def by (rule key_suffix)

text \<open>With no response active, a chat that grew is rehydrated.\<close>

lemma react_grown:
  assumes "\<not> str_truthy (activeResponseId st)"
    and "lastHydratedKey st = None \<or> lastHydratedKey st = Some (hydration_key st0)"
    and "length (messages st) \<noteq> length (messages st0)" and "messages st \<noteq> []"
  shows "react parse st =
     (rehydrateFromChatHistory parse st)\<lparr> lastHydratedKey := Some (hydration_key st) \<rparr>"
proof -
  have "Some (hydration_key st) \<noteq> lastHydratedKey st"
    using assms(2,3) hydration_key_length [of st st0] by auto
  then show ?thesis using assms(1,4) by (simp add: react_def)
qed

text \<open>Every response state of a rehydrated engine is named after a message of the history.\<close>

lemma hydrate_keys:
  assumes "\<forall>k\<in>fst ` set (responseStates st). \<exists>j. k = ''history-'' @ decimal j"
  shows "\<forall>k\<in>fst ` set (responseStates (hydrate tr st mi)). \<exists>j. k = ''history-'' @ decimal j"
proof (cases mi)
  case (Pair m index)
  show ?thesis
  proof (cases "rehydrate_message tr index m = []")
    case True
    then show ?thesis using assms Pair by (simp add: hydrate_def)
  next
    case False
    then have "fst ` set (responseStates (hydrate tr st mi)) =
        {''history-'' @ decimal index} \<union> fst ` set (responseStates st)"
      using Pair by (simp add: hydrate_def Let_def dom_update)
    then show ?thesis using assms by blast
  qed
qed

lemma hydrate_fold_keys:
  assumes "\<forall>k\<in>fst ` set (responseStates st). \<exists>j. k = ''history-'' @ decimal j"
  shows "\<forall>k\<in>fst ` set (responseStates (foldl (hydrate tr) st xs)). \<exists>j. k = ''history-'' @ decimal j"
  using assms
proof (induction xs arbitrary: st)
  case Nil
  then show ?case by simp
next
  case (Cons x xs)
  from Cons.IH [OF hydrate_keys [OF Cons.prems, of tr x]] show ?case by simp
qed

lemma rehydrate_keys:
  assumes "messages st \<noteq> []" and "\<forall>j. rid \<noteq> ''history-'' @ decimal j"
  shows "map_of (responseStates (rehydrateFromChatHistory parse st)) rid = None"
proof -
  define tr where "tr = foldl (tool_result_of parse) [] (messages st)"
  define st0 where "st0 = st\<lparr> responseStates := [], itemToResponse := [],
                          messageResponseMap := [], componentLoading := {} \<rparr>"
  define st1 where "st1 = foldl (hydrate tr) st0 (zip (messages st) [0 ..< length (messages st)])"
  have "\<forall>k\<in>fst ` set (responseStates st0). \<exists>j. k = ''history-'' @ decimal j"
    by (simp add: st0_def)
  from hydrate_fold_keys [OF this, of tr "zip (messages st) [0 ..< length (messages st)]"]
  have "\<forall>k\<in>fst ` set (responseStates st1). \<exists>j. k = ''history-'' @ decimal j"
    by (simp add: st1_def)
  with assms(2) have "rid \<notin> fst ` set (responseStates st1)" by blast
  then have "map_of (responseStates st1) rid = None" by (simp add: map_of_eq_None_iff)
  moreover have "responseStates (rehydrateFromChatHistory parse st) = responseStates st1"
    using assms(1) by (simp add: rehydrateFromChatHistory_def Let_def tr_def st0_def st1_def)
  ultimately show ?thesis by simp
qed

lemma appendSegment_lazy:
  assumes "map_of (responseStates st) rid = None"
  shows "appendSegment rid seg st =
     st\<lparr> responseStates := AList.update rid
            \<lparr> responseId = rid, messageIndex = length (messages st), segments = [seg] \<rparr>
            (responseStates st),
         itemToResponse := AList.update (seg_id seg) (rid, 0) (itemToResponse st),
         messageResponseMap := AList.update (length (messages st)) rid (messageResponseMap st),
         responseStatesVersion := responseStatesVersion st + 2,
         messages := messages st @ [backing (stored_text [seg])] \<rparr>"
  unfolding appendSegment_new [OF assms] by (simp add: backing_def stored_text_def)

text \<open>The reverse index after a response is indexed again.\<close>

lemma reindex_fold_other:
  "k \<notin> seg_id ` fst ` set xs \<Longrightarrow>
   map_of (foldl (\<lambda>m (s, j). AList.update (seg_id s) (rid, j) m) m0 xs) k = map_of m0 k"
  by (induction xs arbitrary: m0) (auto simp: update_conv' split: prod.splits)

lemma reindex_fold_unique:
  assumes "idx < length segs" and "seg_id (segs ! idx) = i"
    and "\<forall>j<length segs. j \<noteq> idx \<longrightarrow> seg_id (segs ! j) \<noteq> i"
  shows "map_of (foldl (\<lambda>m (s, j). AList.update (seg_id s) (rid, j) m) m0
           (zip segs [0 ..< length segs])) i = Some (rid, idx)"
proof -
  define f where "f = (\<lambda>m (s :: segment, j :: nat). AList.update (seg_id s) (rid, j) m)"
  define xs2 where "xs2 = zip (drop (Suc idx) segs) [Suc idx ..< length segs]"
  define m1 where "m1 = foldl f m0 (zip (take idx segs) [0 ..< idx])"
  have "i \<notin> seg_id ` fst ` set xs2"
  proof
    assume "i \<in> seg_id ` fst ` set xs2"
    then obtain s j where sj: "(s, j) \<in> set xs2" "seg_id s = i" by force
    from sj(1) have "s \<in> set (drop (Suc idx) segs)" unfolding xs2_def by (rule set_zip_leftD)
    then obtain n where n: "n < length (drop (Suc idx) segs)" "drop (Suc idx) segs ! n = s"
      by (auto simp: in_set_conv_nth)
    then have "segs ! (Suc idx + n) = s" "Suc idx + n < length segs" by auto
    with assms(3) sj(2) show False by auto
  qed
  from reindex_fold_other [OF this, of rid "f m1 (segs ! idx, idx)"]
  have "map_of (foldl f (f m1 (segs ! idx, idx)) xs2) i = Some (rid, idx)"
    by (simp add: f_def assms(2) update_conv')
  then show ?thesis
    unfolding zip_upt_split [OF assms(1)] f_def [symmetric] by (simp add: xs2_def m1_def)
qed

text \<open>A text item that the engine holds once: what an update of its content does.\<close>

lemma update_held:
  assumes "map_of (itemToResponse st) i = Some (r, idx)"
    and "map_of (responseStates st) r = Some state"
    and "idx < length (segments state)"
    and "segments state ! idx = AssistantTextSegment i c"
    and "\<forall>j<length (segments state). j \<noteq> idx \<longrightarrow> seg_id (segments state ! j) \<noteq> i"
  shows "responseStates (updateTextSegment i f st) =
     AList.update r (state\<lparr> segments := (segments state)[idx := AssistantTextSegment i (f c)] \<rparr>)
       (responseStates st)"
    and "map_of (itemToResponse (updateTextSegment i f st)) i = Some (r, idx)"
    and "map_of (messageResponseMap st) (messageIndex state) = Some r \<Longrightarrow>
      map_of (messageResponseMap (updateTextSegment i f st)) (messageIndex state) = Some r"
proof -
  define segs' where "segs' = (segments state)[idx := AssistantTextSegment i (f c)]"
  have u: "updateTextSegment i f st = replaceSegment r idx (AssistantTextSegment i (f c)) st"
    using assms(1-4) by (simp add: updateTextSegment_def)
  show "responseStates (updateTextSegment i f st) =
     AList.update r (state\<lparr> segments := (segments state)[idx := AssistantTextSegment i (f c)] \<rparr>)
       (responseStates st)"
    unfolding u by (rule replaceSegment_states [OF assms(2)])
  have l: "idx < length segs'" "seg_id (segs' ! idx) = i"
    "\<forall>j<length segs'. j \<noteq> idx \<longrightarrow> seg_id (segs' ! j) \<noteq> i"
    using assms(3,5) by (simp_all add: segs'_def)
  have "itemToResponse (replaceSegment r idx (AssistantTextSegment i (f c)) st) =
      foldl (\<lambda>m (s, j). AList.update (seg_id s) (r, j) m) (itemToResponse st)
        (zip segs' [0 ..< length segs'])"
    using assms(2)
    by (simp add: replaceSegment_def Let_def reindexResponseSegments_def update_conv' segs'_def)
  then show "map_of (itemToResponse (updateTextSegment i f st)) i = Some (r, idx)"
    unfolding u using reindex_fold_unique [OF l, of r "itemToResponse st"] by simp
  show "map_of (messageResponseMap (updateTextSegment i f st)) (messageIndex state) = Some r"
    if "map_of (messageResponseMap st) (messageIndex state) = Some r"
    unfolding u by (rule replaceSegment_map [OF assms(2) that])
qed

lemma started_idem:
  "handle (AgentResponseStarted rid md) (handle (AgentResponseStarted rid md) st) =
   handle (AgentResponseStarted rid md) st"
proof (cases "map_of (responseStates st) rid")
  case None
  then show ?thesis by (rule started_twice)
next
  case (Some state)
  then show ?thesis by (simp add: getOrCreateResponseState_def)
qed

lemma render_frame:
  assumes "etype b \<in> {Tool_call_started, Tool_call_completed, Response_completed,
                       Response_error, Response_saved}"
  shows "getAssistantSegments (handle b st) m i = getAssistantSegments st m i"
  using assms by (cases b) (auto intro!: getAssistantSegments_cong simp: Let_def)


lemma appendSegment_frame [simp]:
  "activeResponseId (appendSegment r seg st) = activeResponseId st"
  "lastHydratedKey (appendSegment r seg st) = lastHydratedKey st"
  "saved_rev (appendSegment r seg st) = saved_rev st"
  by (simp_all add: appendSegment_def getOrCreateResponseState_def pushAssistantMessage_def
      Let_def split: option.splits prod.splits)

lemma appendSegment_map:
  assumes "map_of (responseStates st) rid = Some state"
  shows "map_of (messageResponseMap (appendSegment rid seg st)) (messageIndex state) = Some rid"
  using assms
  by (simp add: appendSegment_def getOrCreateResponseState_def Let_def
      refreshAssistantMessageContent_def update_conv')

lemma fst_zip_upt: "fst ` set (zip xs [0 ..< length xs]) = set xs"
proof -
  have "fst ` set (zip xs [0 ..< length xs]) = set (map fst (zip xs [0 ..< length xs]))"
    by (simp only: set_map)
  also have "map fst (zip xs [0 ..< length xs]) = xs" by (simp add: map_fst_zip)
  finally show ?thesis .
qed

text \<open>An event delivered again.\<close>

lemma created_known:
  assumes "rid \<noteq> []" and "map_of (responseStates st) rid = Some state"
    and "map_of (messageResponseMap st) (messageIndex state) = Some rid"
  shows "map_of (responseStates (handle (AgentOutputItemCreated rid item) st)) rid =
     Some (state\<lparr> segments := segments state @ [segment_of_item item] \<rparr>)"
    and "map_of (messageResponseMap (handle (AgentOutputItemCreated rid item) st)) (messageIndex state) =
     Some rid"
    and "getAssistantSegments (handle (AgentOutputItemCreated rid item) st) m (messageIndex state) =
     filter visible (segments state @ [segment_of_item item])"
proof -
  have h: "handle (AgentOutputItemCreated rid item) st = appendSegment rid (segment_of_item item) st"
    using assms(1) by (simp add: target_response_def)
  show a: "map_of (responseStates (handle (AgentOutputItemCreated rid item) st)) rid =
     Some (state\<lparr> segments := segments state @ [segment_of_item item] \<rparr>)"
    unfolding h appendSegment_existing [OF assms(2)] by (simp add: update_conv')
  show b: "map_of (messageResponseMap (handle (AgentOutputItemCreated rid item) st)) (messageIndex state) =
     Some rid"
    unfolding h by (rule appendSegment_map [OF assms(2)])
  have "state_at (handle (AgentOutputItemCreated rid item) st) (messageIndex state) =
      Some (state\<lparr> segments := segments state @ [segment_of_item item] \<rparr>)"
    by (rule state_at_eq [OF b assms(1) a])
  then show "getAssistantSegments (handle (AgentOutputItemCreated rid item) st) m (messageIndex state) =
     filter visible (segments state @ [segment_of_item item])"
    by (simp add: getAssistantSegments_def)
qed

lemma update_held_render:
  assumes "map_of (itemToResponse st) i = Some (r, idx)"
    and "map_of (responseStates st) r = Some state"
    and "idx < length (segments state)"
    and "segments state ! idx = AssistantTextSegment i c"
    and "\<forall>j<length (segments state). j \<noteq> idx \<longrightarrow> seg_id (segments state ! j) \<noteq> i"
    and "map_of (messageResponseMap st) (messageIndex state) = Some r" and "r \<noteq> []"
  shows "getAssistantSegments (updateTextSegment i f st) m (messageIndex state) =
     filter visible ((segments state)[idx := AssistantTextSegment i (f c)])"
    and "getAssistantSegments (updateTextSegment i g (updateTextSegment i f st)) m (messageIndex state) =
     filter visible ((segments state)[idx := AssistantTextSegment i (g (f c))])"
proof -
  define state1 where "state1 = state\<lparr> segments := (segments state)[idx := AssistantTextSegment i (f c)] \<rparr>"
  define st1 where "st1 = updateTextSegment i f st"
  note u = update_held [OF assms(1-5), of f, folded st1_def state1_def]
  have s1: "map_of (responseStates st1) r = Some state1"
    unfolding u(1) by (simp add: update_conv')
  have m1: "map_of (messageResponseMap st1) (messageIndex state1) = Some r"
    using u(3) [OF assms(6)] by (simp add: state1_def)
  have "state_at st1 (messageIndex state1) = Some state1"
    by (rule state_at_eq [OF m1 assms(7) s1])
  then show "getAssistantSegments (updateTextSegment i f st) m (messageIndex state) =
     filter visible ((segments state)[idx := AssistantTextSegment i (f c)])"
    by (simp add: getAssistantSegments_def st1_def state1_def)
  have l: "idx < length (segments state1)" "segments state1 ! idx = AssistantTextSegment i (f c)"
    "\<forall>j<length (segments state1). j \<noteq> idx \<longrightarrow> seg_id (segments state1 ! j) \<noteq> i"
    using assms(3,5) by (simp_all add: state1_def)
  define state2 where "state2 = state1\<lparr> segments := (segments state1)[idx := AssistantTextSegment i (g (f c))] \<rparr>"
  define st2 where "st2 = updateTextSegment i g st1"
  note v = update_held [OF u(2) s1 l, of g, folded st2_def state2_def]
  have s2: "map_of (responseStates st2) r = Some state2"
    unfolding v(1) by (simp add: update_conv')
  have m2: "map_of (messageResponseMap st2) (messageIndex state2) = Some r"
    using v(3) [OF m1] by (simp add: state2_def)
  have "state_at st2 (messageIndex state2) = Some state2"
    by (rule state_at_eq [OF m2 assms(7) s2])
  then show "getAssistantSegments (updateTextSegment i g (updateTextSegment i f st)) m (messageIndex state) =
     filter visible ((segments state)[idx := AssistantTextSegment i (g (f c))])"
    by (simp add: getAssistantSegments_def st2_def st1_def state2_def state1_def)
qed

lemma handle_active:
  assumes "etype b \<in> {Output_item_created, Output_text_delta, Output_text_completed}"
  shows "activeResponseId (handle b st) = activeResponseId st"
  using assms by (cases b) (auto split: option.splits)

lemma live_twice_active:
  assumes "str_truthy (activeResponseId st)"
    and "etype (body e) \<in> {Output_item_created, Output_text_delta, Output_text_completed}"
  shows "live parse st [(e, f1), (e, f2)] = apply_event e (apply_event e st)"
    and "live parse st [(e, f1)] = apply_event e st"
proof -
  have 1: "str_truthy (activeResponseId (apply_event e st))"
    using assms by (simp add: apply_event_def handle_active)
  then have 2: "str_truthy (activeResponseId (apply_event e (apply_event e st)))"
    using assms(2) by (simp add: apply_event_def handle_active)
  show "live parse st [(e, f1), (e, f2)] = apply_event e (apply_event e st)"
    by (simp add: live_def arrive_active [OF 1] arrive_active [OF 2])
  show "live parse st [(e, f1)] = apply_event e st"
    by (simp add: live_def arrive_active [OF 1])
qed

section \<open>Results on the run emitter\<close>

text \<open>
  C7. Within a run the sequence numbers of the emitted events are 0, 1, 2, ... in emission
  order, hence strictly increasing without repeats; the first event is response-started
  with sequence 0 and no later event is a response-started; every response-saved event is
  preceded by a response-completed event.
\<close>

theorem sequence_invariant:
  "let evs = events (agentChatStream E chat stream) in
     map sequence evs = [0 ..< length evs] \<and>
     sorted_wrt (<) (map sequence evs) \<and> distinct (map sequence evs) \<and>
     evs \<noteq> [] \<and> etype (body (hd evs)) = Response_started \<and> sequence (hd evs) = 0 \<and>
     (\<forall>j < length evs. 0 < j \<longrightarrow> etype (body (evs ! j)) \<noteq> Response_started) \<and>
     (\<forall>j < length evs. etype (body (evs ! j)) = Response_saved \<longrightarrow>
        (\<exists>i < j. etype (body (evs ! i)) = Response_completed))"
proof -
  obtain ev es cl where sh: "events (agentChatStream E chat stream) = ev # es @ cl"
     "sequence ev = 0" "etype (body ev) = Response_started"
     "map sequence (es @ cl) = [1 ..< 1 + length (es @ cl)]"
     "list_all (\<lambda>t. t \<noteq> Response_started \<and> t \<noteq> Response_saved) (etypes es)"
     "closing es cl"
    using run_shape [of E chat stream] by auto
  define evs where "evs = ev # es @ cl"
  have seq: "map sequence evs = [0 ..< length evs]"
  proof -
    have "[0 ..< Suc n] = 0 # [Suc 0 ..< Suc n]" for n :: nat
      by (rule upt_conv_Cons) simp
    from this [of "length (es @ cl)"] have "[0 ..< length evs] = 0 # [1 ..< 1 + length (es @ cl)]"
      by (simp only: evs_def list.size One_nat_def plus_1_eq_Suc add_Suc_right add_0_right
          add_Suc add_0)
    moreover have "map sequence evs = 0 # map sequence (es @ cl)"
      using sh(2) by (simp add: evs_def)
    ultimately show ?thesis using sh(4) by (simp only:)
  qed
  have es_ok: "etype (body (es ! i)) \<noteq> Response_started \<and> etype (body (es ! i)) \<noteq> Response_saved"
    if "i < length es" for i
    using sh(5) that by (simp add: list_all_length etypes_def)
  have cl_cases: "cl = [] \<or> (\<exists>e. cl = [e] \<and> etype (body e) \<noteq> Response_started)"
    using sh(6) by (auto simp: closing_def)
  have not_started: "etype (body (evs ! j)) \<noteq> Response_started" if "j < length evs" "0 < j" for j
  proof (cases "j - 1 < length es")
    case True
    then have "evs ! j = es ! (j - 1)" using that(2) by (simp add: evs_def nth_Cons' nth_append)
    then show ?thesis using es_ok [OF True] by simp
  next
    case False
    with that cl_cases obtain e where e: "cl = [e]" "etype (body e) \<noteq> Response_started"
      by (auto simp: evs_def)
    with False that have "evs ! j = e" by (auto simp: evs_def nth_Cons' nth_append)
    with e show ?thesis by simp
  qed
  have saved: "\<exists>i < j. etype (body (evs ! i)) = Response_completed"
    if "j < length evs" "etype (body (evs ! j)) = Response_saved" for j
  proof -
    have j0: "0 < j" using that(2) sh(3) by (cases j) (auto simp: evs_def)
    have "\<not> j - 1 < length es"
    proof
      assume a: "j - 1 < length es"
      then have "evs ! j = es ! (j - 1)" using j0 by (simp add: evs_def nth_Cons' nth_append)
      with es_ok [OF a] that(2) show False by simp
    qed
    moreover have "length cl \<le> 1" using sh(6) by (auto simp: closing_def)
    ultimately have j: "j = 1 + length es" "cl \<noteq> []" using that(1) j0 by (auto simp: evs_def)
    then obtain e where e: "cl = [e]" using sh(6) by (auto simp: closing_def)
    with j have "evs ! j = e" by (simp add: evs_def nth_append)
    with that(2) e sh(6) have "Response_completed \<in> set (etypes es)"
      by (auto simp: closing_def)
    then obtain i where i: "i < length es" "etype (body (es ! i)) = Response_completed"
      by (auto simp: etypes_def in_set_conv_nth)
    then have "Suc i < j" "etype (body (evs ! Suc i)) = Response_completed"
      using j by (simp_all add: evs_def nth_append)
    then show ?thesis by blast
  qed
  have "map sequence evs = [0 ..< length evs] \<and>
     sorted_wrt (<) (map sequence evs) \<and> distinct (map sequence evs) \<and>
     evs \<noteq> [] \<and> etype (body (hd evs)) = Response_started \<and> sequence (hd evs) = 0 \<and>
     (\<forall>j < length evs. 0 < j \<longrightarrow> etype (body (evs ! j)) \<noteq> Response_started) \<and>
     (\<forall>j < length evs. etype (body (evs ! j)) = Response_saved \<longrightarrow>
        (\<exists>i < j. etype (body (evs ! i)) = Response_completed))"
    using seq not_started saved sh(2,3) by (simp add: evs_def [symmetric]) (simp add: evs_def)
  then show ?thesis unfolding Let_def sh(1) evs_def [symmetric] .
qed

theorem sequence_invariant_witness:
  "let evs = events (agentChatStream demo_env demo_chat
                 [Inr (content_chunk ''Hi''), Inr (done_chunk demo_messages 12)]) in
     map sequence evs = [0, 1, 2, 3, 4, 5] \<and>
     etype (body (evs ! 5)) = Response_saved \<and>
     (\<exists>i < 5. etype (body (evs ! i)) = Response_completed)"
proof -
  define evs where "evs = events (agentChatStream demo_env demo_chat
                 [Inr (content_chunk ''Hi''), Inr (done_chunk demo_messages 12)])"
  have t: "etypes evs = [Response_started, Output_item_created, Output_text_delta,
      Output_text_completed, Response_completed, Response_saved]"
    unfolding evs_def by code_simp
  then have len: "length evs = 6" by (simp add: etypes_def flip: length_map [of "\<lambda>e. etype (body e)"])
  have s5: "etype (body (evs ! 5)) = Response_saved"
    using t len nth_map [of 5 evs "\<lambda>e. etype (body e)"] by (simp add: etypes_def)
  have inv: "map sequence evs = [0 ..< length evs] \<and>
     (\<forall>j < length evs. etype (body (evs ! j)) = Response_saved \<longrightarrow>
        (\<exists>i < j. etype (body (evs ! i)) = Response_completed))"
    using sequence_invariant [of demo_env demo_chat
        "[Inr (content_chunk ''Hi''), Inr (done_chunk demo_messages 12)]"]
    unfolding Let_def evs_def [symmetric] by blast
  from inv len have "map sequence evs = [0, 1, 2, 3, 4, 5]"
    by (simp add: upt_rec)
  moreover from inv len s5 have "\<exists>i < 5. etype (body (evs ! i)) = Response_completed"
    by auto
  ultimately show ?thesis using s5 unfolding Let_def evs_def [symmetric] by blast
qed

text \<open>
  C5. When the provider stream yields an error chunk (after chunks that do not end the
  run), the run's events are the events emitted before it followed by exactly one
  response-error event, which carries the chunk's content as its message (the text
  "An error occurred" when the content is empty or absent) and retryable = false; there is
  no response-error before it and no response-saved at all, the response is ended, and
  nothing is persisted: no chat id minted, no title prompt, no store write.
\<close>

theorem provider_error_terminates:
  assumes "\<forall>x\<in>set pre. goes_on x" and "chunk_type c = Error"
  shows "let r = agentChatStream E chat (pre @ Inr c # rest);
             r0 = agentChatStream E chat pre in
     (\<exists>e. events r = events r0 @ [e] \<and>
          body e = AgentRunError (uuid E 1) (error_message c) (Some False)) \<and>
     (\<forall>m. chunk_content c = Some m \<and> m \<noteq> [] \<longrightarrow> error_message c = m) \<and>
     Response_error \<notin> set (etypes (events r0)) \<and>
     length (filter (\<lambda>e. etype (body e) = Response_error) (events r)) = 1 \<and>
     Response_saved \<notin> set (etypes (events r)) \<and>
     ended r \<and> \<not> minted r \<and> title_prompts r = [] \<and> put_calls r = []"
proof -
  from prefix_run [OF assms(1), of E chat] obtain st1 ev es where p:
    "consume E (start E chat) pre = (st1, Finished [] 0)"
    "\<And>xs. consume E (start E chat) (pre @ xs) = consume E st1 xs"
    "written st1 = ev # es" "etype (body ev) = Response_started"
    "list_all mid (etypes es)" "response_id st1 = uuid E 1"
    by blast
  define b where "b = AgentRunError (uuid E 1) (error_message c) (Some False)"
  define r where "r = agentChatStream E chat (pre @ Inr c # rest)"
  define r0 where "r0 = agentChatStream E chat pre"
  have r0: "r0 = \<lparr> events = written st1, ended = True, minted = False, title_prompts = [],
                   put_calls = [] \<rparr>"
    unfolding r0_def by (rule run_prefix_only [OF p(1)])
  have "consume E st1 (Inr c # rest) = (on_error E c st1, Returned)"
    by (simp add: handle_chunk_Error [OF assms(2)])
  then have r: "r = \<lparr> events = written (on_error E c st1), ended = True, minted = False,
                      title_prompts = [], put_calls = [] \<rparr>"
    unfolding r_def by (simp add: agentChatStream_def p(2))
  obtain e where e: "written (on_error E c st1) = written st1 @ [e]" "body e = b"
    by (simp add: on_error_def emitEventInternal_def p(6) b_def)
  have no_err: "Response_error \<notin> set (etypes (events r0))"
    using p(3,4) mid_set [OF p(5), of Response_error] by (auto simp: r0)
  have no_saved0: "Response_saved \<notin> set (etypes (events r0))"
    using p(3,4) mid_set [OF p(5), of Response_saved] by (auto simp: r0)
  have f0: "filter (\<lambda>e. etype (body e) = Response_error) (events r0) = []"
    using no_err by (force simp: filter_empty_conv etypes_def)
  have evs: "events r = events r0 @ [e]" using r r0 e(1) by simp
  have "length (filter (\<lambda>e. etype (body e) = Response_error) (events r)) = 1"
    using f0 e(2) by (simp add: evs b_def)
  moreover have "Response_saved \<notin> set (etypes (events r))"
    using no_saved0 e(2) by (simp add: evs b_def)
  moreover have "\<forall>m. chunk_content c = Some m \<and> m \<noteq> [] \<longrightarrow> error_message c = m"
    by (simp add: error_message_def str_truthy_def)
  moreover have "\<exists>e. events r = events r0 @ [e] \<and> body e = b" using evs e(2) by blast
  moreover have "ended r \<and> \<not> minted r \<and> title_prompts r = [] \<and> put_calls r = []"
    by (simp add: r)
  ultimately show ?thesis
    using no_err unfolding Let_def r_def [symmetric] r0_def [symmetric] b_def [symmetric]
    by blast
qed

theorem provider_error_terminates_witness:
  "let r = agentChatStream demo_env demo_chat
             [Inr (content_chunk ''Hi''), Inr (error_chunk ''rate limited''),
              Inr (done_chunk demo_messages 12)];
       r0 = agentChatStream demo_env demo_chat [Inr (content_chunk ''Hi'')] in
     (\<forall>x\<in>set [Inr (content_chunk ''Hi'')]. goes_on x) \<and>
     chunk_type (error_chunk ''rate limited'') = Error \<and>
     (\<exists>e. events r = events r0 @ [e] \<and>
          body e = AgentRunError ''ui'' ''rate limited'' (Some False)) \<and>
     length (filter (\<lambda>e. etype (body e) = Response_error) (events r)) = 1 \<and>
     put_calls r = []"
proof -
  have h1: "\<forall>x\<in>set [Inr (content_chunk ''Hi'')]. goes_on x"
    by (simp add: content_chunk_def)
  have h2: "chunk_type (error_chunk ''rate limited'') = Error"
    by (simp add: error_chunk_def)
  have m: "error_message (error_chunk ''rate limited'') = ''rate limited''"
    by (simp add: error_message_def error_chunk_def str_truthy_def)
  have u: "uuid demo_env 1 = ''ui''" by (simp add: demo_env_def)
  show ?thesis
    using provider_error_terminates [OF h1 h2, of demo_env demo_chat "[Inr (done_chunk demo_messages 12)]"]
      h1 h2
    unfolding Let_def m u by simp
qed

text \<open>
  C10. When the done chunk (after chunks that do not end the run) carries an empty or
  absent final message list, the run still emits response-completed, which is its last
  event, and performs no persistence: no chat id is minted, no title prompt is issued,
  nothing is written to the store, and no response-saved (or response-error) event is
  emitted before the response is ended.
\<close>

theorem no_persistence_without_messages:
  assumes "\<forall>x\<in>set pre. goes_on x" and "chunk_type c = Done"
    and "chunk_messages c = None \<or> chunk_messages c = Some []"
  shows "let r = agentChatStream E chat (pre @ Inr c # rest) in
     events r \<noteq> [] \<and>
     body (last (events r)) =
       AgentRunCompleted (uuid E 1) (Some (case tokensUsed c of Some n \<Rightarrow> n | None \<Rightarrow> 0)) \<and>
     Response_saved \<notin> set (etypes (events r)) \<and>
     Response_error \<notin> set (etypes (events r)) \<and>
     ended r \<and> \<not> minted r \<and> title_prompts r = [] \<and> put_calls r = []"
proof -
  from done_run [OF assms(1,2), of E chat rest] obtain st2 es e where d:
    "agentChatStream E chat (pre @ Inr c # rest) =
       persist E chat (case chunk_messages c of Some ms \<Rightarrow> ms | None \<Rightarrow> [])
         (case tokensUsed c of Some n \<Rightarrow> n | None \<Rightarrow> 0) st2"
    "written st2 = es @ [e]"
    "body e = AgentRunCompleted (uuid E 1) (Some (case tokensUsed c of Some n \<Rightarrow> n | None \<Rightarrow> 0))"
    "Response_saved \<notin> set (etypes es)" "Response_error \<notin> set (etypes es)"
    by blast
  have "(case chunk_messages c of Some ms \<Rightarrow> ms | None \<Rightarrow> []) = []"
    using assms(3) by auto
  then have r: "agentChatStream E chat (pre @ Inr c # rest) =
     \<lparr> events = es @ [e], ended = True, minted = False, title_prompts = [], put_calls = [] \<rparr>"
    using d(1,2) by (simp add: persist_empty)
  show ?thesis unfolding Let_def r using d(3,4,5) by simp
qed

theorem no_persistence_without_messages_witness:
  "let r = agentChatStream demo_env demo_chat
             [Inr (content_chunk ''Hi''), Inr (done_chunk [] 12)] in
     (\<forall>x\<in>set [Inr (content_chunk ''Hi'')]. goes_on x) \<and>
     chunk_type (done_chunk [] 12) = Done \<and> chunk_messages (done_chunk [] 12) = Some [] \<and>
     body (last (events r)) = AgentRunCompleted ''ui'' (Some 12) \<and>
     Response_saved \<notin> set (etypes (events r)) \<and>
     \<not> minted r \<and> title_prompts r = [] \<and> put_calls r = []"
proof -
  have h1: "\<forall>x\<in>set [Inr (content_chunk ''Hi'')]. goes_on x"
    by (simp add: content_chunk_def)
  have h2: "chunk_type (done_chunk [] 12) = Done"
    by (simp add: done_chunk_def)
  have h3: "chunk_messages (done_chunk [] 12) = None \<or> chunk_messages (done_chunk [] 12) = Some []"
    by (simp add: done_chunk_def)
  have t: "(case tokensUsed (done_chunk [] 12) of Some n \<Rightarrow> n | None \<Rightarrow> 0) = 12"
    by (simp add: done_chunk_def)
  have u: "uuid demo_env 1 = ''ui''" by (simp add: demo_env_def)
  show ?thesis
    using no_persistence_without_messages [OF h1 h2 h3, of demo_env demo_chat "[]"] h1 h2
    unfolding Let_def t u by (simp add: done_chunk_def)
qed

text \<open>
  C6 (as stated: a failure of the title prompt does not prevent the save). In this run the
  title prompt throws: nothing is handed to the store, and the run ends with a
  response-error after its response-completed.
\<close>

theorem title_failure_counterexample:
  "put_calls (agentChatStream demo_env_no_title demo_chat
                [Inr (content_chunk ''Hi''), Inr (done_chunk demo_messages 12)]) = [] \<and>
   etypes (events (agentChatStream demo_env_no_title demo_chat
                [Inr (content_chunk ''Hi''), Inr (done_chunk demo_messages 12)])) =
     [Response_started, Output_item_created, Output_text_delta, Output_text_completed,
      Response_completed, Response_error]"
  by code_simp

text \<open>
  C6 (amended). For a run that completes with a non-empty final message list and an
  untitled chat, the title prompt is issued once over the final messages. If it throws,
  no document is handed to the store and the last event is a response-error with the
  exception's message and retryable = false. If it returns a title, the document with that
  title is handed to the store once; if the store throws, the last event is a
  response-error with the exception's message and retryable = false, otherwise it is the
  response-saved event.
\<close>

theorem title_failure_aborts_save:
  assumes "\<forall>x\<in>set pre. goes_on x" and "chunk_type c = Done"
    and "chunk_messages c = Some ms" and "ms \<noteq> []" and "\<not> str_truthy (title chat)"
  shows "let r = agentChatStream E chat (pre @ Inr c # rest);
             n = (case tokensUsed c of Some n \<Rightarrow> n | None \<Rightarrow> 0) in
     title_prompts r = [ms] \<and> ended r \<and>
     (case title_prompt E ms of
        Inl m \<Rightarrow> put_calls r = [] \<and>
                 body (last (events r)) = AgentRunError (uuid E 1) m (Some False)
      | Inr t \<Rightarrow>
          put_calls r = [new_chat E chat ms t] \<and> title (new_chat E chat ms t) = Some t \<and>
          (case db_put E (new_chat E chat ms t) of
             Inl m \<Rightarrow> body (last (events r)) = AgentRunError (uuid E 1) m (Some False)
           | Inr revision \<Rightarrow>
               body (last (events r)) =
                 AgentRunSaved (uuid E 1) (chat_id_of E chat)
                   (if str_truthy revision then revision else None)
                   (Some [(''tokensUsed'', JNum (of_nat n))])))"
proof -
  define n where "n = (case tokensUsed c of Some n \<Rightarrow> n | None \<Rightarrow> 0)"
  from done_run [OF assms(1,2), of E chat rest] obtain st2 where d:
    "agentChatStream E chat (pre @ Inr c # rest) =
       persist E chat (case chunk_messages c of Some ms \<Rightarrow> ms | None \<Rightarrow> []) n st2"
    "response_id st2 = uuid E 1"
    unfolding n_def by blast
  then have r: "agentChatStream E chat (pre @ Inr c # rest) = persist E chat ms n st2"
    using assms(3) by simp
  show ?thesis
  proof (cases "title_prompt E ms")
    case (Inl m)
    then have "persist E chat ms n st2 = caught E m st2 (\<not> str_truthy (chat_id chat)) [ms] []"
      using assms(4,5) by (simp add: persist_def Let_def)
    then show ?thesis
      unfolding Let_def n_def [symmetric] r using Inl d(2)
      by (simp add: caught_def last_emit)
  next
    case t: (Inr t)
    show ?thesis
    proof (cases "db_put E (new_chat E chat ms t)")
      case (Inl m)
      then have "persist E chat ms n st2 =
          caught E m st2 (\<not> str_truthy (chat_id chat)) [ms] [new_chat E chat ms t]"
        using assms(4,5) t by (simp add: persist_def Let_def)
      then show ?thesis
        unfolding Let_def n_def [symmetric] r using Inl t d(2)
        by (simp add: caught_def last_emit new_chat_def)
    next
      case (Inr rv)
      then have "persist E chat ms n st2 =
          \<lparr> events = written (emitEventInternal E (saved_event E chat n rv st2) st2),
            ended = True, minted = \<not> str_truthy (chat_id chat), title_prompts = [ms],
            put_calls = [new_chat E chat ms t] \<rparr>"
        using assms(4,5) t by (simp add: persist_def Let_def)
      then show ?thesis
        unfolding Let_def n_def [symmetric] r using Inr t d(2)
        by (simp add: last_emit new_chat_def saved_event_def)
    qed
  qed
qed

theorem title_failure_aborts_save_witness:
  "let r = agentChatStream demo_env_no_title demo_chat
             [Inr (content_chunk ''Hi''), Inr (done_chunk demo_messages 12)] in
     (\<forall>x\<in>set [Inr (content_chunk ''Hi'')]. goes_on x) \<and>
     chunk_type (done_chunk demo_messages 12) = Done \<and>
     chunk_messages (done_chunk demo_messages 12) = Some demo_messages \<and>
     demo_messages \<noteq> [] \<and> \<not> str_truthy (title demo_chat) \<and>
     title_prompt demo_env_no_title demo_messages = Inl ''title model unavailable'' \<and>
     put_calls r = [] \<and>
     body (last (events r)) = AgentRunError ''ui'' ''title model unavailable'' (Some False)"
proof -
  have h1: "\<forall>x\<in>set [Inr (content_chunk ''Hi'')]. goes_on x"
    by (simp add: content_chunk_def)
  have h2: "chunk_type (done_chunk demo_messages 12) = Done"
    by (simp add: done_chunk_def)
  have h3: "chunk_messages (done_chunk demo_messages 12) = Some demo_messages"
    by (simp add: done_chunk_def)
  have h4: "demo_messages \<noteq> []" by (simp add: demo_messages_def)
  have h5: "\<not> str_truthy (title demo_chat)" by (simp add: demo_chat_def str_truthy_def)
  have tp: "title_prompt demo_env_no_title demo_messages = Inl ''title model unavailable''"
    by (simp add: demo_env_no_title_def)
  have u: "uuid demo_env_no_title 1 = ''ui''" by (simp add: demo_env_no_title_def demo_env_def)
  show ?thesis
    using title_failure_aborts_save [OF h1 h2 h3 h4 h5, of demo_env_no_title "[]"] h1 h2 h3 h4 h5
    unfolding Let_def tp u by simp
qed

text \<open>
  C4 (as stated: item-created, then item-updated, then text-completed). A successful tool
  result carrying \<^verbatim>\<open>removeComponentMessage\<close>, \<^verbatim>\<open>componentId\<close> and \<^verbatim>\<open>message\<close> gives
  rise to a text-completed event before the item-updated event.
\<close>

theorem emission_order_counterexample:
  \<open>etypes (new_events (start demo_env demo_chat)
      (fst (handle_chunk demo_env
         (result_chunk ''call_1''
            ''{"removeComponentMessage":true,"componentId":"c1","message":"Saved"}'')
         (start demo_env demo_chat)))) =
     [Tool_call_completed, Output_item_created, Output_text_completed, Output_item_updated] \<and>
   \<not> spec_ordered (etypes (new_events (start demo_env demo_chat)
      (fst (handle_chunk demo_env
         (result_chunk ''call_1''
            ''{"removeComponentMessage":true,"componentId":"c1","message":"Saved"}'')
         (start demo_env demo_chat)))))\<close>
  by code_simp

text \<open>
  C4 (amended). The events one chunk gives rise to are emitted in a fixed order that
  depends only on the kind of chunk: a content chunk gives item-created (when no text item
  is open) then text-delta; a tool result gives tool-call-completed, then, for a
  successful object result, item-created and text-completed for its message, item-created
  for its component, and item-updated for its removal directive, each when present; a done
  chunk gives text-completed (when a text item is open) then response-completed.
\<close>

theorem emission_order_per_chunk:
  "etypes (new_events st (fst (handle_chunk E c st))) =
     (if chunk_type c = Content \<and> str_truthy (chunk_content c) then
        (if str_truthy (activeTextItemId st) then [] else [Output_item_created])
        @ [Output_text_delta]
      else if chunk_type c = Tool_call_start \<and> toolCall c \<noteq> None then
        [Tool_call_started]
      else if chunk_type c = Tool_call_result \<and> toolResult c \<noteq> None then
        Tool_call_completed #
        (if str_truthy (tr_error (the (toolResult c))) then []
         else (case parse_result E (tr_result (the (toolResult c))) of
                 Raw s \<Rightarrow> []
               | Structured obj \<Rightarrow>
                   (if str_truthy (as_string (js_prop obj ''message''))
                    then [Output_item_created, Output_text_completed] else []) @
                   (if is_object (js_prop obj ''component'') then [Output_item_created] else []) @
                   (if removal obj then [Output_item_updated] else [])))
      else if chunk_type c = Error then [Response_error]
      else if chunk_type c = Done then
        (if str_truthy (activeTextItemId st) then [Output_text_completed] else [])
        @ [Response_completed]
      else [])"
proof -
  consider (a) "chunk_type c = Content \<and> str_truthy (chunk_content c)"
    | (b) "\<not> (chunk_type c = Content \<and> str_truthy (chunk_content c))"
          "chunk_type c = Tool_call_start \<and> toolCall c \<noteq> None"
    | (c) "\<not> (chunk_type c = Content \<and> str_truthy (chunk_content c))"
          "\<not> (chunk_type c = Tool_call_start \<and> toolCall c \<noteq> None)"
          "chunk_type c = Tool_call_result \<and> toolResult c \<noteq> None"
    | (d) "\<not> (chunk_type c = Content \<and> str_truthy (chunk_content c))"
          "\<not> (chunk_type c = Tool_call_start \<and> toolCall c \<noteq> None)"
          "\<not> (chunk_type c = Tool_call_result \<and> toolResult c \<noteq> None)"
          "chunk_type c = Error"
    | (e) "\<not> (chunk_type c = Content \<and> str_truthy (chunk_content c))"
          "\<not> (chunk_type c = Tool_call_start \<and> toolCall c \<noteq> None)"
          "\<not> (chunk_type c = Tool_call_result \<and> toolResult c \<noteq> None)"
          "chunk_type c \<noteq> Error" "chunk_type c = Done"
    | (f) "\<not> (chunk_type c = Content \<and> str_truthy (chunk_content c))"
          "\<not> (chunk_type c = Tool_call_start \<and> toolCall c \<noteq> None)"
          "\<not> (chunk_type c = Tool_call_result \<and> toolResult c \<noteq> None)"
          "chunk_type c \<noteq> Error" "chunk_type c \<noteq> Done"
    by blast
  then show ?thesis
  proof cases
    case a
    then have h: "fst (handle_chunk E c st) = on_content E (the (chunk_content c)) st"
      by (simp add: handle_chunk_def)
    from steps_on_content [of st E "the (chunk_content c)"] obtain es where
      "steps st es (on_content E (the (chunk_content c)) st)"
      "etypes es = (if str_truthy (activeTextItemId st) then [] else [Output_item_created])
         @ [Output_text_delta]" by auto
    then have "etypes (new_events st (fst (handle_chunk E c st))) =
       (if str_truthy (activeTextItemId st) then [] else [Output_item_created])
         @ [Output_text_delta]"
      using steps_new_events [of st es] by (simp only: h)
    with a show ?thesis by simp
  next
    case b
    then have h: "fst (handle_chunk E c st) = on_tool_call_start E (the (toolCall c)) st"
      by (simp add: handle_chunk_def)
    from steps_on_tool_call_start [of st E "the (toolCall c)"] obtain es where
      "steps st es (on_tool_call_start E (the (toolCall c)) st)"
      "etypes es = [Tool_call_started]" by auto
    then have "etypes (new_events st (fst (handle_chunk E c st))) = [Tool_call_started]"
      using steps_new_events [of st es] by (simp only: h)
    with b show ?thesis by simp
  next
    case c
    then have h: "fst (handle_chunk E c st) = on_tool_call_result E (the (toolResult c)) st"
      by (simp add: handle_chunk_def)
    define ts where "ts = Tool_call_completed #
        (if str_truthy (tr_error (the (toolResult c))) then []
         else (case parse_result E (tr_result (the (toolResult c))) of
                 Raw s \<Rightarrow> []
               | Structured obj \<Rightarrow>
                   (if str_truthy (as_string (js_prop obj ''message''))
                    then [Output_item_created, Output_text_completed] else []) @
                   (if is_object (js_prop obj ''component'') then [Output_item_created] else []) @
                   (if removal obj then [Output_item_updated] else [])))"
    from steps_on_tool_call_result [of st E "the (toolResult c)"] obtain es where
      "steps st es (on_tool_call_result E (the (toolResult c)) st)" "etypes es = ts"
      unfolding ts_def by auto
    then have "etypes (new_events st (fst (handle_chunk E c st))) = ts"
      using steps_new_events [of st es] by (simp only: h)
    with c show ?thesis unfolding ts_def [symmetric] by simp
  next
    case d
    then have h: "fst (handle_chunk E c st) = on_error E c st"
      by (simp add: handle_chunk_def)
    from steps_on_error [of st E c] obtain es where
      "steps st es (on_error E c st)"
      "map body es = [AgentRunError (response_id st) (error_message c) (Some False)]" by auto
    then have "new_events st (on_error E c st) = es" "etypes es = [Response_error]"
      using steps_new_events [of st es] by (auto simp: etypes_def)
    then have "etypes (new_events st (fst (handle_chunk E c st))) = [Response_error]"
      by (simp only: h)
    with d show ?thesis by simp
  next
    case e
    then have h: "fst (handle_chunk E c st) = on_done E c st"
      by (simp add: handle_chunk_def)
    from steps_on_done [of st E c] obtain es where
      "steps st es (on_done E c st)"
      "etypes es = (if str_truthy (activeTextItemId st) then [Output_text_completed] else [])
         @ [Response_completed]" by auto
    then have "etypes (new_events st (fst (handle_chunk E c st))) =
       (if str_truthy (activeTextItemId st) then [Output_text_completed] else [])
         @ [Response_completed]"
      using steps_new_events [of st es] by (simp only: h)
    with e show ?thesis by simp
  next
    case f
    then have h: "fst (handle_chunk E c st) = st"
      by (auto simp: handle_chunk_def)
    have "etypes (new_events st (fst (handle_chunk E c st))) = []"
      by (simp add: h new_events_def)
    with f show ?thesis by simp
  qed
qed


section \<open>Results on the reconciliation engine\<close>

text \<open>
  C9 (as stated: an output-item-created event that arrives before any response-started
  event is not dropped, and its item appears as a segment exactly as when response-started
  came first). The component holds the chat with the user's message and the reactive
  block has run. The event creates component c1 of response r1. After the update that
  follows it, the engine has no state for r1: with no response active, the reactive block
  has rebuilt the engine from the chat, whose new assistant message stores only a
  placeholder that no tool message resolves, and the message shows that placeholder as
  text. With response-started first, the component is shown. An event without a response
  id, with no response active, is dropped.
\<close>

theorem lazy_creation_counterexample:
  "getAssistantSegments
     (live demo_parse demo_ready
        [(started_event, False), (created_event, True)])
     (backing ''{{toolResult:component:c1}}'') 1 =
     [AssistantComponentSegment ''c1'' (JObj [(''componentId'', JStr ''c1'')]) None] \<and>
   map_of (responseStates
     (live demo_parse demo_ready [(created_event, False)]))
     ''r1'' = Some demo_state \<and>
   map_of (responseStates
     (live demo_parse demo_ready [(created_event, True)]))
     ''r1'' = None \<and>
   messages (live demo_parse demo_ready [(created_event, True)]) =
     chat_messages demo_chat @ [backing ''{{toolResult:component:c1}}''] \<and>
   getAssistantSegments
     (live demo_parse demo_ready [(created_event, True)])
     (backing ''{{toolResult:component:c1}}'') 1 =
     [AssistantTextSegment ''1-text'' ''{{toolResult:component:c1}}''] \<and>
   apply_event (created_event\<lparr> body := AgentOutputItemCreated [] demo_component \<rparr>)
     demo_ready = demo_ready"
  by code_simp

text \<open>
  C9 (amended). An output-item-created event with a non-empty responseId, applied when the
  engine has no state for that response, is not dropped by the handler: the response state
  is created on the spot with the item as its only segment, a new assistant message that
  stores the segment's text is put behind it, and the engine is the one reached when
  response-started was applied first, except that no response is marked active. That
  difference decides what the next run of the reactive block does. After response-started
  it leaves the engine as it is. Without it, no response being active and the reactive
  block having last run on the chat as it was, it rebuilds the engine from the chat
  history, and the state created for the response is gone (the response id not being one
  of the names history-0, history-1, ... that rehydration gives). An
  output-item-created event with an empty responseId, when no response is active, is
  dropped.
\<close>

theorem lazy_response_creation:
  assumes "rid \<noteq> []" and "map_of (responseStates st) rid = None"
  shows "let seg = segment_of_item item;
             k = length (messages st);
             st1 = handle (AgentOutputItemCreated rid item) st;
             st2 = handle (AgentOutputItemCreated rid item) (handle (AgentResponseStarted rid md) st) in
     st1 = st\<lparr> responseStates := AList.update rid
                  \<lparr> responseId = rid, messageIndex = k, segments = [seg] \<rparr> (responseStates st),
               itemToResponse := AList.update (seg_id seg) (rid, 0) (itemToResponse st),
               messageResponseMap := AList.update k rid (messageResponseMap st),
               responseStatesVersion := responseStatesVersion st + 2,
               messages := messages st @ [backing (stored_text [seg])] \<rparr> \<and>
     getAssistantSegments st1 m k = filter visible [seg] \<and>
     st2 = st1\<lparr> activeResponseId := Some rid \<rparr> \<and>
     getAssistantSegments st2 m k = filter visible [seg] \<and>
     react parse st2 = st2 \<and>
     (\<not> str_truthy (activeResponseId st) \<and>
      (lastHydratedKey st = None \<or> lastHydratedKey st = Some (hydration_key st)) \<longrightarrow>
        react parse st1 =
          (rehydrateFromChatHistory parse st1)\<lparr> lastHydratedKey := Some (hydration_key st1) \<rparr> \<and>
        ((\<forall>j. rid \<noteq> ''history-'' @ decimal j) \<longrightarrow>
           map_of (responseStates (react parse st1)) rid = None)) \<and>
     (\<not> str_truthy (activeResponseId st) \<longrightarrow> handle (AgentOutputItemCreated [] item) st = st)"
proof -
  define seg where "seg = segment_of_item item"
  define k where "k = length (messages st)"
  define st1 where "st1 = handle (AgentOutputItemCreated rid item) st"
  define st2 where "st2 = handle (AgentOutputItemCreated rid item) (handle (AgentResponseStarted rid md) st)"
  have t: "target_response rid s = Some rid" for s
    using assms(1) by (simp add: target_response_def)
  have e1: "st1 = st\<lparr> responseStates := AList.update rid
                  \<lparr> responseId = rid, messageIndex = k, segments = [seg] \<rparr> (responseStates st),
               itemToResponse := AList.update (seg_id seg) (rid, 0) (itemToResponse st),
               messageResponseMap := AList.update k rid (messageResponseMap st),
               responseStatesVersion := responseStatesVersion st + 2,
               messages := messages st @ [backing (stored_text [seg])] \<rparr>"
    unfolding st1_def k_def seg_def using appendSegment_lazy [OF assms(2)] by (simp add: t)
  have a: "map_of (responseStates st1) rid =
       Some \<lparr> responseId = rid, messageIndex = k, segments = [seg] \<rparr>"
    unfolding e1 by (simp add: update_conv')
  have b: "map_of (messageResponseMap st1) k = Some rid"
    unfolding e1 by (simp add: update_conv')
  have r1: "getAssistantSegments st1 m k = filter visible [seg]"
    using a b assms(1) by (simp add: getAssistantSegments_def state_at_def)
  have e2: "st2 = st1\<lparr> activeResponseId := Some rid \<rparr>"
    unfolding st2_def st1_def by (rule created_after_started [OF assms])
  have "getAssistantSegments st2 m k = getAssistantSegments st1 m k"
    unfolding e2 by (rule getAssistantSegments_cong) simp_all
  with r1 have r2: "getAssistantSegments st2 m k = filter visible [seg]" by simp
  have k2: "react parse st2 = st2"
    by (rule react_active) (simp add: e2 str_truthy_def assms(1))
  have k1: "react parse st1 =
          (rehydrateFromChatHistory parse st1)\<lparr> lastHydratedKey := Some (hydration_key st1) \<rparr> \<and>
        ((\<forall>j. rid \<noteq> ''history-'' @ decimal j) \<longrightarrow>
           map_of (responseStates (react parse st1)) rid = None)"
    if h: "\<not> str_truthy (activeResponseId st)"
      "lastHydratedKey st = None \<or> lastHydratedKey st = Some (hydration_key st)"
  proof -
    have 1: "\<not> str_truthy (activeResponseId st1)" using h(1) by (simp add: e1)
    have 2: "lastHydratedKey st1 = None \<or> lastHydratedKey st1 = Some (hydration_key st)"
      using h(2) by (simp add: e1)
    have 3: "length (messages st1) \<noteq> length (messages st)" by (simp add: e1)
    have 4: "messages st1 \<noteq> []" by (simp add: e1)
    note g = react_grown [OF 1 2 3 4, of parse]
    have "map_of (responseStates (react parse st1)) rid = None"
      if "\<forall>j. rid \<noteq> ''history-'' @ decimal j"
      unfolding g using rehydrate_keys [OF 4 that, of parse] by simp
    with g show ?thesis by blast
  qed
  have d: "handle (AgentOutputItemCreated [] item) st = st"
    if "\<not> str_truthy (activeResponseId st)"
    using that by (simp add: target_response_def str_truthy_def split: option.splits)
  have c6: "\<not> str_truthy (activeResponseId st) \<and>
      (lastHydratedKey st = None \<or> lastHydratedKey st = Some (hydration_key st)) \<longrightarrow>
        react parse st1 =
          (rehydrateFromChatHistory parse st1)\<lparr> lastHydratedKey := Some (hydration_key st1) \<rparr> \<and>
        ((\<forall>j. rid \<noteq> ''history-'' @ decimal j) \<longrightarrow>
           map_of (responseStates (react parse st1)) rid = None)"
    using k1 by blast
  have c7: "\<not> str_truthy (activeResponseId st) \<longrightarrow> handle (AgentOutputItemCreated [] item) st = st"
    using d by blast
  show ?thesis
    unfolding Let_def seg_def [symmetric] k_def [symmetric] st1_def [symmetric] st2_def [symmetric]
    by (intro conjI) (rule e1 r1 e2 r2 k2 c6 c7)+
qed

theorem lazy_response_creation_witness:
  "''r1'' \<noteq> [] \<and> map_of (responseStates demo_ready) ''r1'' = None \<and>
   \<not> str_truthy (activeResponseId demo_ready) \<and>
   lastHydratedKey demo_ready = Some (hydration_key demo_ready) \<and>
   (\<forall>j. ''r1'' \<noteq> ''history-'' @ decimal j) \<and>
   getAssistantSegments (handle (AgentOutputItemCreated ''r1'' demo_component) demo_ready)
     (backing []) (length (messages demo_ready)) =
     [AssistantComponentSegment ''c1'' (JObj [(''componentId'', JStr ''c1'')]) None] \<and>
   messages (handle (AgentOutputItemCreated ''r1'' demo_component) demo_ready) =
     messages demo_ready @ [backing ''{{toolResult:component:c1}}''] \<and>
   react demo_parse
     (handle (AgentOutputItemCreated ''r1'' demo_component)
        (handle (AgentResponseStarted ''r1'' None) demo_ready)) =
     handle (AgentOutputItemCreated ''r1'' demo_component)
        (handle (AgentResponseStarted ''r1'' None) demo_ready) \<and>
   map_of (responseStates
     (react demo_parse (handle (AgentOutputItemCreated ''r1'' demo_component) demo_ready)))
     ''r1'' = None \<and>
   handle (AgentOutputItemCreated [] demo_component) demo_ready = demo_ready"
proof -
  define st1 where "st1 = handle (AgentOutputItemCreated ''r1'' demo_component) demo_ready"
  define st2 where "st2 = handle (AgentOutputItemCreated ''r1'' demo_component)
        (handle (AgentResponseStarted ''r1'' None) demo_ready)"
  have h1: "''r1'' \<noteq> []" by simp
  have h2: "map_of (responseStates demo_ready) ''r1'' = None" by code_simp
  have h3: "\<not> str_truthy (activeResponseId demo_ready)" by code_simp
  have h4: "lastHydratedKey demo_ready = Some (hydration_key demo_ready)" by code_simp
  have h5: "\<forall>j. ''r1'' \<noteq> ''history-'' @ decimal j" by simp
  have v: "filter visible [segment_of_item demo_component] =
      [AssistantComponentSegment ''c1'' (JObj [(''componentId'', JStr ''c1'')]) None]"
    by code_simp
  have t: "stored_text [segment_of_item demo_component] = ''{{toolResult:component:c1}}''"
    by code_simp
  note th = lazy_response_creation [OF h1 h2, where item = demo_component and md = None
        and m = "backing []" and parse = demo_parse,
        unfolded Let_def, folded st1_def st2_def, unfolded v t]
  from th have c1: "getAssistantSegments st1 (backing []) (length (messages demo_ready)) =
     [AssistantComponentSegment ''c1'' (JObj [(''componentId'', JStr ''c1'')]) None]"
    by (elim conjE)
  from th have "st1 = demo_ready\<lparr> responseStates := AList.update ''r1''
                  \<lparr> responseId = ''r1'', messageIndex = length (messages demo_ready),
                    segments = [segment_of_item demo_component] \<rparr> (responseStates demo_ready),
               itemToResponse := AList.update (seg_id (segment_of_item demo_component)) (''r1'', 0)
                  (itemToResponse demo_ready),
               messageResponseMap := AList.update (length (messages demo_ready)) ''r1''
                  (messageResponseMap demo_ready),
               responseStatesVersion := responseStatesVersion demo_ready + 2,
               messages := messages demo_ready @ [backing ''{{toolResult:component:c1}}''] \<rparr>"
    by (elim conjE)
  then have c2: "messages st1 = messages demo_ready @ [backing ''{{toolResult:component:c1}}'']"
    by simp
  from th have c3: "react demo_parse st2 = st2" by (elim conjE)
  from th have "\<not> str_truthy (activeResponseId demo_ready) \<and>
      (lastHydratedKey demo_ready = None \<or>
       lastHydratedKey demo_ready = Some (hydration_key demo_ready)) \<longrightarrow>
        react demo_parse st1 =
          (rehydrateFromChatHistory demo_parse st1)\<lparr> lastHydratedKey := Some (hydration_key st1) \<rparr> \<and>
        ((\<forall>j. ''r1'' \<noteq> ''history-'' @ decimal j) \<longrightarrow>
           map_of (responseStates (react demo_parse st1)) ''r1'' = None)"
    by (elim conjE)
  with h3 h4 h5 have c4: "map_of (responseStates (react demo_parse st1)) ''r1'' = None" by blast
  from th have "\<not> str_truthy (activeResponseId demo_ready) \<longrightarrow>
      handle (AgentOutputItemCreated [] demo_component) demo_ready = demo_ready"
    by (elim conjE)
  with h3 have c5: "handle (AgentOutputItemCreated [] demo_component) demo_ready = demo_ready"
    by blast
  show ?thesis
    unfolding st1_def [symmetric] st2_def [symmetric]
    by (intro conjI) (rule h1 h2 h3 h4 h5 c1 c2 c3 c4 c5)+
qed

text \<open>
  C3 (as stated: the hidden segment is retained in the response's segment list). After
  the hiding patch the response has no segment at all and the item has no entry in the
  reverse index; a later patch for the same item changes nothing.
\<close>

theorem hidden_retention_counterexample:
  "map_of (responseStates demo_run) ''r1'' =
     Some \<lparr> responseId = ''r1'', messageIndex = 1,
            segments = [AssistantComponentSegment ''c1'' (JObj [(''componentId'', JStr ''c1'')]) None] \<rparr> \<and>
   map_of (responseStates (live demo_parse demo_run [(hide_event, True)])) ''r1'' =
     Some \<lparr> responseId = ''r1'', messageIndex = 1, segments = [] \<rparr> \<and>
   map_of (itemToResponse (live demo_parse demo_run [(hide_event, True)])) ''c1'' = None \<and>
   live demo_parse demo_run [(hide_event, True), (replace_event, True)] =
     live demo_parse demo_run [(hide_event, True)]"
  by code_simp

text \<open>
  C3 (amended). After an output-item-updated event with state = hidden and no replaceWith
  is applied to a segment the engine locates, that segment is removed from the response's
  segment list (the other segments keep their order), and the rendered segments are the
  visible ones among those left; while a response is active the reactive block changes
  nothing about this. If another segment of the same response carries the same id, the id
  stays in the reverse index. If no segment left in this response and no segment of any
  other response carries the id (the response map holding each response once), the id is
  unknown to the engine from then on: it has no entry in the reverse index, it is absent
  from the rendered segments, and a later patch for it leaves the engine unchanged.
\<close>

theorem hidden_segment_removed:
  assumes "fst (locateSegment i st) = Some (rid, idx)"
    and "map_of (responseStates st) rid = Some state"
    and "idx < length (segments state)"
    and "patch_state p = Some Hidden" and "replaceWith p = None"
    and "map_of (messageResponseMap st) (messageIndex state) = Some rid" and "rid \<noteq> []"
  shows "let st' = handle (AgentOutputItemUpdated r i p) st;
             segs' = take idx (segments state) @ drop (Suc idx) (segments state) in
     map_of (responseStates st') rid = Some (state\<lparr> segments := segs' \<rparr>) \<and>
     getAssistantSegments st' m (messageIndex state) = filter visible segs' \<and>
     (str_truthy (activeResponseId st) \<longrightarrow> react parse st' = st') \<and>
     (i \<in> seg_id ` set segs' \<longrightarrow> map_of (itemToResponse st') i \<noteq> None) \<and>
     (i \<notin> seg_id ` set segs' \<and> distinct (map fst (responseStates st)) \<and>
      (\<forall>(k, s)\<in>set (responseStates st). k \<noteq> rid \<longrightarrow> i \<notin> seg_id ` set (segments s)) \<longrightarrow>
        map_of (itemToResponse st') i = None \<and>
        i \<notin> seg_id ` set (getAssistantSegments st' m (messageIndex state)) \<and>
        handle (AgentOutputItemUpdated r i p') st' = st')"
proof -
  define st' where "st' = on_item_updated i p st"
  define segs' where "segs' = take idx (segments state) @ drop (Suc idx) (segments state)"
  note h = updated_hidden [OF assms(1,2,3,4,5), folded st'_def segs'_def]
  have rs: "map_of (responseStates st') rid = Some (state\<lparr> segments := segs' \<rparr>)"
    unfolding h(1) by (simp add: update_conv')
  have sa: "state_at st' (messageIndex state) = Some (state\<lparr> segments := segs' \<rparr>)"
    using state_at_eq [OF h(3) [OF assms(6)] assms(7) rs] .
  have g: "getAssistantSegments st' m (messageIndex state) = filter visible segs'"
    by (simp add: getAssistantSegments_def sa)
  have k: "str_truthy (activeResponseId st) \<longrightarrow> react parse st' = st'"
    by (auto intro!: react_active simp: st'_def)
  have ix: "map_of (itemToResponse st') i = None \<longleftrightarrow>
      map_of (AList.delete i (itemToResponse (snd (locateSegment i st)))) i = None \<and>
      i \<notin> seg_id ` set segs'"
    unfolding h(2) reindex_fold_None fst_zip_upt ..
  have dup: "i \<in> seg_id ` set segs' \<longrightarrow> map_of (itemToResponse st') i \<noteq> None"
    using ix by blast
  have gone: "map_of (itemToResponse st') i = None \<and>
        i \<notin> seg_id ` set (getAssistantSegments st' m (messageIndex state)) \<and>
        on_item_updated i p' st' = st'"
    if ni: "i \<notin> seg_id ` set segs'" and d: "distinct (map fst (responseStates st))"
      and o: "\<forall>(k, s)\<in>set (responseStates st). k \<noteq> rid \<longrightarrow> i \<notin> seg_id ` set (segments s)"
  proof -
    have idx: "map_of (itemToResponse st') i = None"
      unfolding ix using ni by (simp add: delete_conv')
    have "locate_in i (responseStates st') = None"
      unfolding locate_in_None h(1)
    proof (clarify)
      fix k s x
      assume a: "(k, s) \<in> set (AList.update rid (state\<lparr> segments := segs' \<rparr>) (responseStates st))"
        and b: "x \<in> set (segments s)" "i = seg_id x"
      from set_update_distinct [OF d a]
      consider "k = rid" "s = state\<lparr> segments := segs' \<rparr>" | "k \<noteq> rid" "(k, s) \<in> set (responseStates st)"
        by blast
      then show False
      proof cases
        case 1
        with b ni show False by auto
      next
        case 2
        with o b show False by auto
      qed
    qed
    with idx have "locateSegment i st' = (None, st')"
      by (simp add: locateSegment_def)
    then have noop: "on_item_updated i p' st' = st'"
      by (simp add: on_item_updated_def)
    have "i \<notin> seg_id ` set (filter visible segs')" using ni by auto
    with idx g noop show ?thesis by simp
  qed
  then have c5: "i \<notin> seg_id ` set segs' \<and> distinct (map fst (responseStates st)) \<and>
      (\<forall>(k, s)\<in>set (responseStates st). k \<noteq> rid \<longrightarrow> i \<notin> seg_id ` set (segments s)) \<longrightarrow>
        map_of (itemToResponse st') i = None \<and>
        i \<notin> seg_id ` set (getAssistantSegments st' m (messageIndex state)) \<and>
        on_item_updated i p' st' = st'"
    by blast
  show ?thesis
    unfolding Let_def handle.simps st'_def [symmetric] segs'_def [symmetric]
    by (intro conjI) (rule rs g k dup c5)+
qed

theorem hidden_segment_removed_witness:
  "fst (locateSegment ''c1'' demo_run) = Some (''r1'', 0) \<and>
   map_of (responseStates demo_run) ''r1'' = Some demo_state \<and>
   0 < length (segments demo_state) \<and>
   patch_state hide_patch = Some Hidden \<and> replaceWith hide_patch = None \<and>
   map_of (messageResponseMap demo_run) (messageIndex demo_state) = Some ''r1'' \<and>
   str_truthy (activeResponseId demo_run) \<and>
   responseStates demo_run = [(''r1'', demo_state)] \<and>
   map_of (responseStates (handle (AgentOutputItemUpdated ''r1'' ''c1'' hide_patch) demo_run)) ''r1'' =
     Some (demo_state\<lparr> segments := [] \<rparr>) \<and>
   getAssistantSegments (handle (AgentOutputItemUpdated ''r1'' ''c1'' hide_patch) demo_run)
     (backing []) (messageIndex demo_state) = [] \<and>
   react demo_parse (handle (AgentOutputItemUpdated ''r1'' ''c1'' hide_patch) demo_run) =
     handle (AgentOutputItemUpdated ''r1'' ''c1'' hide_patch) demo_run \<and>
   map_of (itemToResponse (handle (AgentOutputItemUpdated ''r1'' ''c1'' hide_patch) demo_run)) ''c1'' =
     None \<and>
   handle (AgentOutputItemUpdated ''r1'' ''c1'' replace_patch)
     (handle (AgentOutputItemUpdated ''r1'' ''c1'' hide_patch) demo_run) =
     handle (AgentOutputItemUpdated ''r1'' ''c1'' hide_patch) demo_run"
proof -
  define st' where "st' = handle (AgentOutputItemUpdated ''r1'' ''c1'' hide_patch) demo_run"
  have h1: "fst (locateSegment ''c1'' demo_run) = Some (''r1'', 0)" by code_simp
  have h2: "map_of (responseStates demo_run) ''r1'' = Some demo_state" by code_simp
  have h3: "0 < length (segments demo_state)" by (simp add: demo_state_def)
  have h4: "patch_state hide_patch = Some Hidden" by (simp add: hide_patch_def)
  have h5: "replaceWith hide_patch = None" by (simp add: hide_patch_def)
  have h6: "map_of (messageResponseMap demo_run) (messageIndex demo_state) = Some ''r1''"
    by code_simp
  have h7: "''r1'' \<noteq> []" by simp
  have a: "str_truthy (activeResponseId demo_run)" by code_simp
  have rs: "responseStates demo_run = [(''r1'', demo_state)]" by code_simp
  have s0: "take 0 (segments demo_state) @ drop (Suc 0) (segments demo_state) = []"
    by (simp add: demo_state_def)
  note th = hidden_segment_removed [OF h1 h2 h3 h4 h5 h6 h7,
      where r = "''r1''" and m = "backing []" and p' = replace_patch and parse = demo_parse,
      unfolded Let_def s0, folded st'_def]
  from th have c1: "map_of (responseStates st') ''r1'' = Some (demo_state\<lparr> segments := [] \<rparr>)"
    by (elim conjE)
  from th have c2: "getAssistantSegments st' (backing []) (messageIndex demo_state) = filter visible []"
    by (elim conjE)
  from th have "str_truthy (activeResponseId demo_run) \<longrightarrow> react demo_parse st' = st'"
    by (elim conjE)
  with a have c3: "react demo_parse st' = st'" by blast
  from th have "''c1'' \<notin> seg_id ` set [] \<and> distinct (map fst (responseStates demo_run)) \<and>
      (\<forall>(k, s)\<in>set (responseStates demo_run). k \<noteq> ''r1'' \<longrightarrow> ''c1'' \<notin> seg_id ` set (segments s)) \<longrightarrow>
        map_of (itemToResponse st') ''c1'' = None \<and>
        ''c1'' \<notin> seg_id ` set (getAssistantSegments st' (backing []) (messageIndex demo_state)) \<and>
        handle (AgentOutputItemUpdated ''r1'' ''c1'' replace_patch) st' = st'"
    by (elim conjE)
  moreover have "''c1'' \<notin> seg_id ` set [] \<and> distinct (map fst (responseStates demo_run)) \<and>
      (\<forall>(k, s)\<in>set (responseStates demo_run). k \<noteq> ''r1'' \<longrightarrow> ''c1'' \<notin> seg_id ` set (segments s))"
    unfolding rs by simp
  ultimately have c45: "map_of (itemToResponse st') ''c1'' = None"
    "handle (AgentOutputItemUpdated ''r1'' ''c1'' replace_patch) st' = st'"
    by blast+
  from c2 have c2': "getAssistantSegments st' (backing []) (messageIndex demo_state) = []" by simp
  show ?thesis
    unfolding st'_def [symmetric]
    by (intro conjI) (rule h1 h2 h3 h4 h5 h6 a rs c1 c2' c3 c45)+
qed

text \<open>
  C2 (as stated: applying an event twice gives the same rendered segments as applying it
  once). With response r1 started, an output-item-created event delivered twice renders
  its component twice; and once the text item exists, a text-delta event delivered twice
  appends its delta twice.
\<close>

theorem apply_twice_counterexample:
  "getAssistantSegments (live demo_parse demo_ready [(started_event, True), (created_event, True)])
     (backing []) 1 =
     [AssistantComponentSegment ''c1'' (JObj [(''componentId'', JStr ''c1'')]) None] \<and>
   getAssistantSegments
     (live demo_parse demo_ready [(started_event, True), (created_event, True), (created_event, True)])
     (backing []) 1 =
     [AssistantComponentSegment ''c1'' (JObj [(''componentId'', JStr ''c1'')]) None,
      AssistantComponentSegment ''c1'' (JObj [(''componentId'', JStr ''c1'')]) None] \<and>
   getAssistantSegments
     (live demo_parse demo_ready
        [(started_event, True), (text_created_event, True), (delta_event, True)])
     (backing []) 1 = [AssistantTextSegment ''t1'' ''Hi''] \<and>
   getAssistantSegments
     (live demo_parse demo_ready
        [(started_event, True), (text_created_event, True), (delta_event, True), (delta_event, True)])
     (backing []) 1 = [AssistantTextSegment ''t1'' ''HiHi'']"
  by code_simp

text \<open>
  C2 (amended). The engine never reads an event's id, so nothing is deduplicated. Applying
  an event twice renders the same segments as applying it once in these cases: on an
  engine that knows nothing yet, for every event that is not an output-item-created event;
  on every engine, for response-started, tool-call-started, tool-call-completed,
  response-completed, response-error and response-saved events; and for an
  output-text-completed event whose text item the engine holds, under that id only once in
  its response. It does not in these: an output-item-created event with a non-empty
  responseId whose response the engine knows leaves two segments with the item's id at
  the end of the response; an output-text-delta event with a non-empty responseId whose
  text item the engine holds (once in its response) appends its delta twice. While a
  response is active, the reactive block changes nothing about this, whether it runs
  after the first delivery, the second, both or neither.
\<close>

theorem apply_twice_laws:
  "(etype (body e) \<noteq> Output_item_created \<longrightarrow>
      getAssistantSegments (apply_event e (apply_event e (fresh ms))) m k =
      getAssistantSegments (apply_event e (fresh ms)) m k) \<and>
   (etype (body e) \<in> {Response_started, Tool_call_started, Tool_call_completed,
                        Response_completed, Response_error, Response_saved} \<longrightarrow>
      getAssistantSegments (apply_event e (apply_event e st)) m k =
      getAssistantSegments (apply_event e st) m k) \<and>
   (\<forall>rid item state.
      body e = AgentOutputItemCreated rid item \<and> rid \<noteq> [] \<and>
      map_of (responseStates st) rid = Some state \<and>
      map_of (messageResponseMap st) (messageIndex state) = Some rid \<longrightarrow>
        getAssistantSegments (apply_event e st) m (messageIndex state) =
          filter visible (segments state @ [segment_of_item item]) \<and>
        getAssistantSegments (apply_event e (apply_event e st)) m (messageIndex state) =
          filter visible (segments state @ [segment_of_item item, segment_of_item item])) \<and>
   (\<forall>rid i d r idx state c.
      body e = AgentOutputTextDelta rid i d \<and> rid \<noteq> [] \<and>
      map_of (itemToResponse st) i = Some (r, idx) \<and>
      map_of (responseStates st) r = Some state \<and> idx < length (segments state) \<and>
      segments state ! idx = AssistantTextSegment i c \<and>
      (\<forall>j<length (segments state). j \<noteq> idx \<longrightarrow> seg_id (segments state ! j) \<noteq> i) \<and>
      map_of (messageResponseMap st) (messageIndex state) = Some r \<and> r \<noteq> [] \<longrightarrow>
        getAssistantSegments (apply_event e st) m (messageIndex state) =
          filter visible ((segments state)[idx := AssistantTextSegment i (c @ d)]) \<and>
        getAssistantSegments (apply_event e (apply_event e st)) m (messageIndex state) =
          filter visible ((segments state)[idx := AssistantTextSegment i (c @ d @ d)])) \<and>
   (\<forall>rid i t r idx state c.
      body e = AgentOutputTextCompleted rid i t \<and>
      map_of (itemToResponse st) i = Some (r, idx) \<and>
      map_of (responseStates st) r = Some state \<and> idx < length (segments state) \<and>
      segments state ! idx = AssistantTextSegment i c \<and>
      (\<forall>j<length (segments state). j \<noteq> idx \<longrightarrow> seg_id (segments state ! j) \<noteq> i) \<and>
      map_of (messageResponseMap st) (messageIndex state) = Some r \<and> r \<noteq> [] \<longrightarrow>
        getAssistantSegments (apply_event e st) m (messageIndex state) =
          filter visible ((segments state)[idx := AssistantTextSegment i t]) \<and>
        getAssistantSegments (apply_event e (apply_event e st)) m (messageIndex state) =
          filter visible ((segments state)[idx := AssistantTextSegment i t])) \<and>
   (str_truthy (activeResponseId st) \<and>
    etype (body e) \<in> {Output_item_created, Output_text_delta, Output_text_completed} \<longrightarrow>
      live parse st [(e, f1), (e, f2)] = apply_event e (apply_event e st) \<and>
      live parse st [(e, f1)] = apply_event e st)"
proof (intro conjI impI allI)
  assume nc: "etype (body e) \<noteq> Output_item_created"
  show "getAssistantSegments (apply_event e (apply_event e (fresh ms))) m k =
      getAssistantSegments (apply_event e (fresh ms)) m k"
  proof (cases "etype (body e) = Response_started")
    case True
    then obtain rid md where b: "body e = AgentResponseStarted rid md"
      by (cases "body e") simp_all
    from started_idem [of rid md "fresh ms"] show ?thesis
      unfolding apply_event_def b by simp
  next
    case False
    have b1: "blank (apply_event e (fresh ms))"
      unfolding apply_event_def by (rule blank_handle [OF blank_fresh nc False])
    have b2: "blank (apply_event e (apply_event e (fresh ms)))"
      unfolding apply_event_def by (rule blank_handle [OF b1 [unfolded apply_event_def] nc False])
    show ?thesis by (simp add: blank_render [OF b1] blank_render [OF b2])
  qed
next
  assume s: "etype (body e) \<in> {Response_started, Tool_call_started, Tool_call_completed,
                        Response_completed, Response_error, Response_saved}"
  show "getAssistantSegments (apply_event e (apply_event e st)) m k =
      getAssistantSegments (apply_event e st) m k"
  proof (cases "etype (body e) = Response_started")
    case True
    then obtain rid md where b: "body e = AgentResponseStarted rid md"
      by (cases "body e") simp_all
    from started_idem [of rid md st] show ?thesis
      unfolding apply_event_def b by simp
  next
    case False
    with s have "etype (body e) \<in> {Tool_call_started, Tool_call_completed, Response_completed,
                       Response_error, Response_saved}" by simp
    from render_frame [OF this] show ?thesis unfolding apply_event_def .
  qed
next
  fix rid item state
  assume a: "body e = AgentOutputItemCreated rid item \<and> rid \<noteq> [] \<and>
      map_of (responseStates st) rid = Some state \<and>
      map_of (messageResponseMap st) (messageIndex state) = Some rid"
  then have a1: "rid \<noteq> []" "map_of (responseStates st) rid = Some state"
    "map_of (messageResponseMap st) (messageIndex state) = Some rid" by simp_all
  define st1 where "st1 = handle (AgentOutputItemCreated rid item) st"
  define state1 where "state1 = state\<lparr> segments := segments state @ [segment_of_item item] \<rparr>"
  note c1 = created_known [OF a1, of item, folded st1_def state1_def]
  show "getAssistantSegments (apply_event e st) m (messageIndex state) =
          filter visible (segments state @ [segment_of_item item])"
    using a c1(3) [of m] by (simp add: apply_event_def st1_def del: handle.simps)
  have m1: "map_of (messageResponseMap st1) (messageIndex state1) = Some rid"
    using c1(2) by (simp add: state1_def)
  from created_known(3) [OF a1(1) c1(1) m1, of item m]
  show "getAssistantSegments (apply_event e (apply_event e st)) m (messageIndex state) =
          filter visible (segments state @ [segment_of_item item, segment_of_item item])"
    using a by (simp add: apply_event_def st1_def state1_def del: handle.simps)
next
  fix rid i d r idx state c
  assume a: "body e = AgentOutputTextDelta rid i d \<and> rid \<noteq> [] \<and>
      map_of (itemToResponse st) i = Some (r, idx) \<and>
      map_of (responseStates st) r = Some state \<and> idx < length (segments state) \<and>
      segments state ! idx = AssistantTextSegment i c \<and>
      (\<forall>j<length (segments state). j \<noteq> idx \<longrightarrow> seg_id (segments state ! j) \<noteq> i) \<and>
      map_of (messageResponseMap st) (messageIndex state) = Some r \<and> r \<noteq> []"
  then have h: "map_of (itemToResponse st) i = Some (r, idx)"
      "map_of (responseStates st) r = Some state" "idx < length (segments state)"
      "segments state ! idx = AssistantTextSegment i c"
      "\<forall>j<length (segments state). j \<noteq> idx \<longrightarrow> seg_id (segments state ! j) \<noteq> i"
      "map_of (messageResponseMap st) (messageIndex state) = Some r" "r \<noteq> []"
    by simp_all
  have t: "apply_event e s = updateTextSegment i (\<lambda>content. content @ d) s" for s
    using a by (simp add: apply_event_def target_response_def)
  note u = update_held_render(1) [OF h, where f = "\<lambda>content. content @ d" and m = m]
    update_held_render(2) [OF h, where f = "\<lambda>content. content @ d"
      and g = "\<lambda>content. content @ d" and m = m]
  show "getAssistantSegments (apply_event e st) m (messageIndex state) =
          filter visible ((segments state)[idx := AssistantTextSegment i (c @ d)])"
    unfolding t by (rule u(1))
  show "getAssistantSegments (apply_event e (apply_event e st)) m (messageIndex state) =
          filter visible ((segments state)[idx := AssistantTextSegment i (c @ d @ d)])"
    unfolding t using u(2) by simp
next
  fix rid i t r idx state c
  assume a: "body e = AgentOutputTextCompleted rid i t \<and>
      map_of (itemToResponse st) i = Some (r, idx) \<and>
      map_of (responseStates st) r = Some state \<and> idx < length (segments state) \<and>
      segments state ! idx = AssistantTextSegment i c \<and>
      (\<forall>j<length (segments state). j \<noteq> idx \<longrightarrow> seg_id (segments state ! j) \<noteq> i) \<and>
      map_of (messageResponseMap st) (messageIndex state) = Some r \<and> r \<noteq> []"
  then have h: "map_of (itemToResponse st) i = Some (r, idx)"
      "map_of (responseStates st) r = Some state" "idx < length (segments state)"
      "segments state ! idx = AssistantTextSegment i c"
      "\<forall>j<length (segments state). j \<noteq> idx \<longrightarrow> seg_id (segments state ! j) \<noteq> i"
      "map_of (messageResponseMap st) (messageIndex state) = Some r" "r \<noteq> []"
    by simp_all
  have e: "apply_event e s = updateTextSegment i (\<lambda>content. t) s" for s
    using a by (simp add: apply_event_def)
  note u = update_held_render(1) [OF h, where f = "\<lambda>content. t" and m = m]
    update_held_render(2) [OF h, where f = "\<lambda>content. t" and g = "\<lambda>content. t" and m = m]
  show "getAssistantSegments (apply_event e st) m (messageIndex state) =
          filter visible ((segments state)[idx := AssistantTextSegment i t])"
    unfolding e by (rule u(1))
  show "getAssistantSegments (apply_event e (apply_event e st)) m (messageIndex state) =
          filter visible ((segments state)[idx := AssistantTextSegment i t])"
    unfolding e by (rule u(2))
next
  assume a: "str_truthy (activeResponseId st) \<and>
    etype (body e) \<in> {Output_item_created, Output_text_delta, Output_text_completed}"
  then have a1: "str_truthy (activeResponseId st)"
    and a2: "etype (body e) \<in> {Output_item_created, Output_text_delta, Output_text_completed}"
    by simp_all
  show "live parse st [(e, f1), (e, f2)] = apply_event e (apply_event e st)"
    by (rule live_twice_active(1) [OF a1 a2])
  show "live parse st [(e, f1)] = apply_event e st"
    by (rule live_twice_active(2) [OF a1 a2])
qed

theorem apply_twice_laws_witness:
  "body delta_event = AgentOutputTextDelta ''r1'' ''t1'' ''Hi'' \<and>
   map_of (itemToResponse demo_text_run) ''t1'' = Some (''r1'', 0) \<and>
   map_of (responseStates demo_text_run) ''r1'' = Some demo_text_state \<and>
   segments demo_text_state = [AssistantTextSegment ''t1'' []] \<and>
   map_of (messageResponseMap demo_text_run) (messageIndex demo_text_state) = Some ''r1'' \<and>
   str_truthy (activeResponseId demo_text_run) \<and>
   getAssistantSegments (apply_event delta_event demo_text_run) (backing [])
     (messageIndex demo_text_state) = [AssistantTextSegment ''t1'' ''Hi''] \<and>
   getAssistantSegments (apply_event delta_event (apply_event delta_event demo_text_run)) (backing [])
     (messageIndex demo_text_state) = [AssistantTextSegment ''t1'' ''HiHi''] \<and>
   live demo_parse demo_text_run [(delta_event, True), (delta_event, True)] =
     apply_event delta_event (apply_event delta_event demo_text_run) \<and>
   body created_event = AgentOutputItemCreated ''r1'' demo_component \<and>
   map_of (responseStates demo_run) ''r1'' = Some demo_state \<and>
   map_of (messageResponseMap demo_run) (messageIndex demo_state) = Some ''r1'' \<and>
   getAssistantSegments (apply_event created_event demo_run) (backing [])
     (messageIndex demo_state) =
     [AssistantComponentSegment ''c1'' (JObj [(''componentId'', JStr ''c1'')]) None,
      AssistantComponentSegment ''c1'' (JObj [(''componentId'', JStr ''c1'')]) None] \<and>
   getAssistantSegments (apply_event created_event (apply_event created_event demo_run)) (backing [])
     (messageIndex demo_state) =
     [AssistantComponentSegment ''c1'' (JObj [(''componentId'', JStr ''c1'')]) None,
      AssistantComponentSegment ''c1'' (JObj [(''componentId'', JStr ''c1'')]) None,
      AssistantComponentSegment ''c1'' (JObj [(''componentId'', JStr ''c1'')]) None] \<and>
   etype (body started_event) = Response_started \<and>
   getAssistantSegments (apply_event started_event (apply_event started_event demo_run)) (backing []) 1 =
     getAssistantSegments (apply_event started_event demo_run) (backing []) 1"
proof -
  have d1: "body delta_event = AgentOutputTextDelta ''r1'' ''t1'' ''Hi''"
    by (simp add: delta_event_def)
  have d2: "map_of (itemToResponse demo_text_run) ''t1'' = Some (''r1'', 0)" by code_simp
  have d3: "map_of (responseStates demo_text_run) ''r1'' = Some demo_text_state" by code_simp
  have d4: "segments demo_text_state = [AssistantTextSegment ''t1'' []]"
    by (simp add: demo_text_state_def)
  have d5: "map_of (messageResponseMap demo_text_run) (messageIndex demo_text_state) = Some ''r1''"
    by code_simp
  have d6: "str_truthy (activeResponseId demo_text_run)" by code_simp
  have d7: "0 < length (segments demo_text_state)"
    "segments demo_text_state ! 0 = AssistantTextSegment ''t1'' []"
    "\<forall>j<length (segments demo_text_state). j \<noteq> 0 \<longrightarrow> seg_id (segments demo_text_state ! j) \<noteq> ''t1''"
    by (simp_all add: d4)
  have v1: "filter visible ((segments demo_text_state)[0 := AssistantTextSegment ''t1'' ([] @ ''Hi'')]) =
      [AssistantTextSegment ''t1'' ''Hi'']"
    unfolding d4 by code_simp
  have v2: "filter visible ((segments demo_text_state)[0 := AssistantTextSegment ''t1'' ([] @ ''Hi'' @ ''Hi'')]) =
      [AssistantTextSegment ''t1'' ''HiHi'']"
    unfolding d4 by code_simp
  note td = apply_twice_laws [where e = delta_event and st = demo_text_run and m = "backing []"
      and parse = demo_parse and ?f1.0 = True and ?f2.0 = True and ms = "[]" and k = 1]
  from td have "\<forall>rid i d r idx state c.
      body delta_event = AgentOutputTextDelta rid i d \<and> rid \<noteq> [] \<and>
      map_of (itemToResponse demo_text_run) i = Some (r, idx) \<and>
      map_of (responseStates demo_text_run) r = Some state \<and> idx < length (segments state) \<and>
      segments state ! idx = AssistantTextSegment i c \<and>
      (\<forall>j<length (segments state). j \<noteq> idx \<longrightarrow> seg_id (segments state ! j) \<noteq> i) \<and>
      map_of (messageResponseMap demo_text_run) (messageIndex state) = Some r \<and> r \<noteq> [] \<longrightarrow>
        getAssistantSegments (apply_event delta_event demo_text_run) (backing []) (messageIndex state) =
          filter visible ((segments state)[idx := AssistantTextSegment i (c @ d)]) \<and>
        getAssistantSegments (apply_event delta_event (apply_event delta_event demo_text_run))
          (backing []) (messageIndex state) =
          filter visible ((segments state)[idx := AssistantTextSegment i (c @ d @ d)])"
    by (elim conjE)
  from this [rule_format, of "''r1''" "''t1''" "''Hi''" "''r1''" 0 demo_text_state "[]"]
    d1 d2 d3 d5 d7
  have "getAssistantSegments (apply_event delta_event demo_text_run) (backing [])
          (messageIndex demo_text_state) =
          filter visible ((segments demo_text_state)[0 := AssistantTextSegment ''t1'' ([] @ ''Hi'')]) \<and>
        getAssistantSegments (apply_event delta_event (apply_event delta_event demo_text_run))
          (backing []) (messageIndex demo_text_state) =
          filter visible ((segments demo_text_state)[0 := AssistantTextSegment ''t1'' ([] @ ''Hi'' @ ''Hi'')])"
    by simp
  then have c1: "getAssistantSegments (apply_event delta_event demo_text_run) (backing [])
     (messageIndex demo_text_state) = [AssistantTextSegment ''t1'' ''Hi'']"
    and c2: "getAssistantSegments (apply_event delta_event (apply_event delta_event demo_text_run))
     (backing []) (messageIndex demo_text_state) = [AssistantTextSegment ''t1'' ''HiHi'']"
    unfolding v1 v2 by simp_all
  from td have "str_truthy (activeResponseId demo_text_run) \<and>
    etype (body delta_event) \<in> {Output_item_created, Output_text_delta, Output_text_completed} \<longrightarrow>
      live demo_parse demo_text_run [(delta_event, True), (delta_event, True)] =
        apply_event delta_event (apply_event delta_event demo_text_run) \<and>
      live demo_parse demo_text_run [(delta_event, True)] = apply_event delta_event demo_text_run"
    by (elim conjE)
  with d6 d1 have c3: "live demo_parse demo_text_run [(delta_event, True), (delta_event, True)] =
     apply_event delta_event (apply_event delta_event demo_text_run)"
    by simp
  have k1: "body created_event = AgentOutputItemCreated ''r1'' demo_component"
    by (simp add: created_event_def)
  have k2: "map_of (responseStates demo_run) ''r1'' = Some demo_state" by code_simp
  have k3: "map_of (messageResponseMap demo_run) (messageIndex demo_state) = Some ''r1''"
    by code_simp
  have w1: "filter visible (segments demo_state @ [segment_of_item demo_component]) =
     [AssistantComponentSegment ''c1'' (JObj [(''componentId'', JStr ''c1'')]) None,
      AssistantComponentSegment ''c1'' (JObj [(''componentId'', JStr ''c1'')]) None]"
    by code_simp
  have w2: "filter visible (segments demo_state @ [segment_of_item demo_component, segment_of_item demo_component]) =
     [AssistantComponentSegment ''c1'' (JObj [(''componentId'', JStr ''c1'')]) None,
      AssistantComponentSegment ''c1'' (JObj [(''componentId'', JStr ''c1'')]) None,
      AssistantComponentSegment ''c1'' (JObj [(''componentId'', JStr ''c1'')]) None]"
    by code_simp
  note tk = apply_twice_laws [where e = created_event and st = demo_run and m = "backing []"
      and parse = demo_parse and ?f1.0 = True and ?f2.0 = True and ms = "[]" and k = 1]
  from tk have "\<forall>rid item state.
      body created_event = AgentOutputItemCreated rid item \<and> rid \<noteq> [] \<and>
      map_of (responseStates demo_run) rid = Some state \<and>
      map_of (messageResponseMap demo_run) (messageIndex state) = Some rid \<longrightarrow>
        getAssistantSegments (apply_event created_event demo_run) (backing []) (messageIndex state) =
          filter visible (segments state @ [segment_of_item item]) \<and>
        getAssistantSegments (apply_event created_event (apply_event created_event demo_run))
          (backing []) (messageIndex state) =
          filter visible (segments state @ [segment_of_item item, segment_of_item item])"
    by (elim conjE)
  from this [rule_format, of "''r1''" demo_component demo_state] k1 k2 k3
  have "getAssistantSegments (apply_event created_event demo_run) (backing []) (messageIndex demo_state) =
          filter visible (segments demo_state @ [segment_of_item demo_component]) \<and>
        getAssistantSegments (apply_event created_event (apply_event created_event demo_run))
          (backing []) (messageIndex demo_state) =
          filter visible (segments demo_state @ [segment_of_item demo_component, segment_of_item demo_component])"
    by simp
  then have c4: "getAssistantSegments (apply_event created_event demo_run) (backing [])
     (messageIndex demo_state) =
     [AssistantComponentSegment ''c1'' (JObj [(''componentId'', JStr ''c1'')]) None,
      AssistantComponentSegment ''c1'' (JObj [(''componentId'', JStr ''c1'')]) None]"
    and c5: "getAssistantSegments (apply_event created_event (apply_event created_event demo_run))
     (backing []) (messageIndex demo_state) =
     [AssistantComponentSegment ''c1'' (JObj [(''componentId'', JStr ''c1'')]) None,
      AssistantComponentSegment ''c1'' (JObj [(''componentId'', JStr ''c1'')]) None,
      AssistantComponentSegment ''c1'' (JObj [(''componentId'', JStr ''c1'')]) None]"
    unfolding w1 w2 by simp_all
  have s1: "etype (body started_event) = Response_started" by (simp add: started_event_def)
  note ts = apply_twice_laws [where e = started_event and st = demo_run and m = "backing []"
      and parse = demo_parse and ?f1.0 = True and ?f2.0 = True and ms = "[]" and k = 1]
  from ts have "etype (body started_event) \<in> {Response_started, Tool_call_started, Tool_call_completed,
                        Response_completed, Response_error, Response_saved} \<longrightarrow>
      getAssistantSegments (apply_event started_event (apply_event started_event demo_run)) (backing []) 1 =
      getAssistantSegments (apply_event started_event demo_run) (backing []) 1"
    by (elim conjE)
  with s1 have c6: "getAssistantSegments (apply_event started_event (apply_event started_event demo_run))
      (backing []) 1 = getAssistantSegments (apply_event started_event demo_run) (backing []) 1"
    by simp
  show ?thesis
    by (intro conjI) (rule d1 d2 d3 d4 d5 d6 c1 c2 c3 k1 k2 k3 c4 c5 s1 c6)+
qed
section \<open>Results on emitter and engine together\<close>

text \<open>
  C8. A successful tool result object with removeComponentMessage = true, a non-empty
  string componentId and a non-empty string message makes the emitter emit exactly one
  output-item-updated event, the last event of the chunk: its patch has state = hidden
  and replaceWith set to a new text item holding the message. Applied to an engine in
  which the component's segment exists, that one event puts the replacement text segment
  at the component's position in the response's segment list, leaves the other segments
  as they were, and the component is absent from the rendered segments.
\<close>

theorem atomic_hide_and_replace:
  assumes "\<not> str_truthy (tr_error tr)" and "parse_result E (tr_result tr) = Structured obj"
    and "truthy (js_prop obj ''removeComponentMessage'')"
    and "as_string (js_prop obj ''componentId'') = Some c" and "c \<noteq> []"
    and "as_string (js_prop obj ''message'') = Some msg" and "msg \<noteq> []"
    and "fst (locateSegment c eng) = Some (rid, idx)"
    and "map_of (responseStates eng) rid = Some state"
    and "idx < length (segments state)"
    and "seg_id (segments state ! idx) = c"
    and "distinct (map seg_id (segments state))"
    and "map_of (messageResponseMap eng) (messageIndex state) = Some rid" and "rid \<noteq> []"
  shows "\<exists>e u pre.
     new_events st (on_tool_call_result E tr st) = pre @ [e] \<and>
     Output_item_updated \<notin> set (etypes pre) \<and>
     body e = AgentOutputItemUpdated (response_id st) c
       \<lparr> patch_state = Some Hidden,
         patch_metadata = Some [(''reason'', JStr ''submitted''),
                                (''sourceToolCallId'', JStr (tr_id tr))],
         replaceWith = Some (TextItem (c @ ''-result-'' @ u) ''assistant'' msg
                               (Some [(''sourceToolCallId'', JStr (tr_id tr))])) \<rparr> \<and>
     (let eng' = apply_event e eng;
          segs' = (segments state)[idx := AssistantTextSegment (c @ ''-result-'' @ u) msg] in
        map_of (responseStates eng') rid = Some (state\<lparr> segments := segs' \<rparr>) \<and>
        getAssistantSegments eng' m (messageIndex state) = filter visible segs' \<and>
        c \<notin> seg_id ` set (getAssistantSegments eng' m (messageIndex state)))"
proof -
  from removal_event [OF assms(1-7), of st] obtain e u pre where ev:
    "new_events st (on_tool_call_result E tr st) = pre @ [e]"
    "Output_item_updated \<notin> set (etypes pre)"
    "body e = AgentOutputItemUpdated (response_id st) c
       \<lparr> patch_state = Some Hidden,
         patch_metadata = Some [(''reason'', JStr ''submitted''),
                                (''sourceToolCallId'', JStr (tr_id tr))],
         replaceWith = Some (TextItem (c @ ''-result-'' @ u) ''assistant'' msg
                               (Some [(''sourceToolCallId'', JStr (tr_id tr))])) \<rparr>"
    by blast
  define p where "p = \<lparr> patch_state = Some Hidden,
         patch_metadata = Some [(''reason'', JStr ''submitted''),
                                (''sourceToolCallId'', JStr (tr_id tr))],
         replaceWith = Some (TextItem (c @ ''-result-'' @ u) ''assistant'' msg
                               (Some [(''sourceToolCallId'', JStr (tr_id tr))])) \<rparr>"
  define item where "item = TextItem (c @ ''-result-'' @ u) ''assistant'' msg
                               (Some [(''sourceToolCallId'', JStr (tr_id tr))])"
  define segs' where "segs' = (segments state)[idx := AssistantTextSegment (c @ ''-result-'' @ u) msg]"
  define eng' where "eng' = apply_event e eng"
  have eng': "eng' = on_item_updated c p eng"
    by (simp add: eng'_def apply_event_def ev(3) p_def)
  have rw: "replaceWith p = Some item" by (simp add: p_def item_def)
  have si: "segment_of_item item = AssistantTextSegment (c @ ''-result-'' @ u) msg"
    by (simp add: item_def)
  note h = updated_replace [OF assms(8,9,10) rw, folded eng', unfolded si, folded segs'_def]
  have rs: "map_of (responseStates eng') rid = Some (state\<lparr> segments := segs' \<rparr>)"
    unfolding h(1) by (simp add: update_conv')
  have sa: "state_at eng' (messageIndex state) = Some (state\<lparr> segments := segs' \<rparr>)"
    using state_at_eq [OF h(2) [OF assms(13)] assms(14) rs] .
  have g: "getAssistantSegments eng' m (messageIndex state) = filter visible segs'"
    by (simp add: getAssistantSegments_def sa)
  have "seg_id (AssistantTextSegment (c @ ''-result-'' @ u) msg) \<noteq> seg_id (segments state ! idx)"
    by (simp add: assms(11))
  from distinct_update_nth [OF assms(12,10) this]
  have "c \<notin> seg_id ` set segs'" by (simp add: segs'_def assms(11))
  then have nc: "c \<notin> seg_id ` set (getAssistantSegments eng' m (messageIndex state))"
    unfolding g by auto
  have "let eng' = apply_event e eng;
          segs' = (segments state)[idx := AssistantTextSegment (c @ ''-result-'' @ u) msg] in
        map_of (responseStates eng') rid = Some (state\<lparr> segments := segs' \<rparr>) \<and>
        getAssistantSegments eng' m (messageIndex state) = filter visible segs' \<and>
        c \<notin> seg_id ` set (getAssistantSegments eng' m (messageIndex state))"
    unfolding Let_def eng'_def [symmetric] segs'_def [symmetric] using rs g nc by simp
  with ev show ?thesis by blast
qed

theorem atomic_hide_and_replace_witness:
  "\<not> str_truthy (tr_error removal_result) \<and>
   parse_result demo_env (tr_result removal_result) = Structured removal_object \<and>
   truthy (js_prop removal_object ''removeComponentMessage'') \<and>
   as_string (js_prop removal_object ''componentId'') = Some ''c1'' \<and>
   as_string (js_prop removal_object ''message'') = Some ''Saved'' \<and>
   fst (locateSegment ''c1'' demo_engine) = Some (''r1'', 0) \<and>
   map_of (responseStates demo_engine) ''r1'' = Some demo_state \<and>
   0 < length (segments demo_state) \<and> seg_id (segments demo_state ! 0) = ''c1'' \<and>
   distinct (map seg_id (segments demo_state)) \<and>
   map_of (messageResponseMap demo_engine) (messageIndex demo_state) = Some ''r1'' \<and>
   (\<exists>e u pre.
      new_events (start demo_env demo_chat)
        (on_tool_call_result demo_env removal_result (start demo_env demo_chat)) = pre @ [e] \<and>
      Output_item_updated \<notin> set (etypes pre) \<and>
      getAssistantSegments (apply_event e demo_engine) (demo_messages ! 1) 1 =
        [AssistantTextSegment (''c1-result-'' @ u) ''Saved''])"
proof -
  have h1: "\<not> str_truthy (tr_error removal_result)" by code_simp
  have h2: "parse_result demo_env (tr_result removal_result) = Structured removal_object"
    by code_simp
  have h3: "truthy (js_prop removal_object ''removeComponentMessage'')" by code_simp
  have h4: "as_string (js_prop removal_object ''componentId'') = Some ''c1''" by code_simp
  have h5: "''c1'' \<noteq> []" by simp
  have h6: "as_string (js_prop removal_object ''message'') = Some ''Saved''" by code_simp
  have h7: "''Saved'' \<noteq> []" by simp
  have h8: "fst (locateSegment ''c1'' demo_engine) = Some (''r1'', 0)" by code_simp
  have h9: "map_of (responseStates demo_engine) ''r1'' = Some demo_state" by code_simp
  have h10: "0 < length (segments demo_state)" by (simp add: demo_state_def)
  have h11: "seg_id (segments demo_state ! 0) = ''c1''" by (simp add: demo_state_def)
  have h12: "distinct (map seg_id (segments demo_state))" by (simp add: demo_state_def)
  have h13: "map_of (messageResponseMap demo_engine) (messageIndex demo_state) = Some ''r1''"
    by code_simp
  have h14: "''r1'' \<noteq> []" by simp
  have v: "filter visible ((segments demo_state)[0 := AssistantTextSegment (''c1'' @ ''-result-'' @ u) ''Saved''])
      = [AssistantTextSegment (''c1-result-'' @ u) ''Saved'']" for u
  proof -
    have "trim ''Saved'' \<noteq> []" by code_simp
    then show ?thesis by (simp add: demo_state_def)
  qed
  have mi: "messageIndex demo_state = 1" by (simp add: demo_state_def)
  from atomic_hide_and_replace [OF h1 h2 h3 h4 h5 h6 h7 h8 h9 h10 h11 h12 h13 h14,
      where st = "start demo_env demo_chat" and m = "demo_messages ! 1"]
  obtain e u pre where
    a: "new_events (start demo_env demo_chat)
        (on_tool_call_result demo_env removal_result (start demo_env demo_chat)) = pre @ [e]"
    and b: "Output_item_updated \<notin> set (etypes pre)"
    and c: "getAssistantSegments (apply_event e demo_engine) (demo_messages ! 1) (messageIndex demo_state) =
        filter visible ((segments demo_state)[0 := AssistantTextSegment (''c1'' @ ''-result-'' @ u) ''Saved''])"
    unfolding Let_def by blast
  from c have "getAssistantSegments (apply_event e demo_engine) (demo_messages ! 1) 1 =
        [AssistantTextSegment (''c1-result-'' @ u) ''Saved'']"
    unfolding v mi .
  with a b have "\<exists>e u pre.
      new_events (start demo_env demo_chat)
        (on_tool_call_result demo_env removal_result (start demo_env demo_chat)) = pre @ [e] \<and>
      Output_item_updated \<notin> set (etypes pre) \<and>
      getAssistantSegments (apply_event e demo_engine) (demo_messages ! 1) 1 =
        [AssistantTextSegment (''c1-result-'' @ u) ''Saved'']"
    by blast
  with h1 h2 h3 h4 h6 h8 h9 h10 h11 h12 h13 show ?thesis by (simp only: simp_thms)
qed

end
